theory Spec2Isabelle
  imports Complex_Main "HOL-Library.AList"
begin

section \<open>Data model of stats.js\<close>

text \<open>
  Amounts are JavaScript numbers (\<open>jsnum\<close>): their sums and quotients are rounded to
  binary64 and can overflow to an infinity or underflow to zero. A numeric input field
  holds a finite binary64 number, given by its exact value (\<open>rat\<close>); a decimal literal
  such as \<^verbatim>\<open>0.20\<close> is the binary64 number nearest to it (\<open>dec\<close>). Counts are \<open>nat\<close>; a win
  rate, the quotient of two counts times 100, is kept as the exact rational.
  A numeric field that is read as \<^verbatim>\<open>p.field || 0\<close> is an \<open>option\<close>: \<open>None\<close> stands for
  every falsy content of the field (absent, \<^verbatim>\<open>null\<close>, \<^verbatim>\<open>NaN\<close>), which the source replaces
  by 0. Strings are byte lists holding the UTF-8 text of the source file. An object
  used as a dictionary is an association list in insertion order, which is the
  enumeration order of \<^verbatim>\<open>Object.keys\<close> and \<^verbatim>\<open>Object.entries\<close> for these keys.
\<close>

text \<open>
  A JavaScript number: a finite binary64 value (given by its exact rational value), the
  two infinities, or \<^verbatim>\<open>NaN\<close>. The sign of zero is not kept: no operation below divides by a
  zero, and \<^verbatim>\<open>-0\<close> compares and adds like \<^verbatim>\<open>0\<close>.
\<close>

datatype jsnum = Fin rat | Infinity | NegInfinity | NotANumber

subsection \<open>Rounding to binary64\<close>

text \<open>
  \<open>binary64 x\<close> is the binary64 value nearest to the rational \<open>x\<close>, ties going to the even
  significand, as IEEE 754 prescribes for \<^verbatim>\<open>+\<close> and \<^verbatim>\<open>/\<close>: with \<open>e = \<lfloor>log\<^sub>2 \<bar>x\<bar>\<rfloor>\<close>, not below
  the least normal exponent -1022, the spacing of the values around \<open>x\<close> is \<open>2\<^sup>e\<^sup>-\<^sup>5\<^sup>2\<close>; a
  result of magnitude \<open>2\<^sup>1\<^sup>0\<^sup>2\<^sup>4\<close> or more is an infinity, and a magnitude of at most half the
  least subnormal \<open>2\<^sup>-\<^sup>1\<^sup>0\<^sup>7\<^sup>4\<close> rounds to zero. \<open>bitLength n\<close> is the number of binary digits of
  \<open>n\<close>, from which \<open>ilog2\<close> finds \<open>\<lfloor>log\<^sub>2 x\<rfloor>\<close> of a positive rational.
\<close>

function bitLength :: "int \<Rightarrow> int" where
  "bitLength n = (if n \<le> 0 then 0 else 1 + bitLength (n div 2))"
  by pat_completeness auto
termination
  by (relation "measure nat") auto

declare bitLength.simps [simp del]

definition ilog2 :: "rat \<Rightarrow> int" where
  "ilog2 x =
     (let e0 = bitLength (fst (quotient_of x)) - bitLength (snd (quotient_of x))
      in if 2 powi e0 \<le> x then e0 else e0 - 1)"

definition roundHalfEven :: "rat \<Rightarrow> int" where
  "roundHalfEven y =
     (let f = \<lfloor>y\<rfloor>; r = y - of_int f
      in if r < 1 / 2 then f else if 1 / 2 < r then f + 1 else if even f then f else f + 1)"

definition binary64 :: "rat \<Rightarrow> jsnum" where
  "binary64 x =
     (if x = 0 then Fin 0
      else
        let e = max (ilog2 \<bar>x\<bar>) (- 1022);
            u = 2 powi (e - 52);
            r = of_int (roundHalfEven (\<bar>x\<bar> / u)) * u
        in if 2 powi 1024 \<le> r then (if 0 < x then Infinity else NegInfinity)
           else Fin (if 0 < x then r else - r))"

text \<open>The value of a decimal literal \<open>x\<close>; every literal used below is finite.\<close>

definition dec :: "rat \<Rightarrow> rat" where
  "dec x = (case binary64 x of Fin r \<Rightarrow> r | _ \<Rightarrow> 0)"

subsection \<open>Arithmetic on numbers\<close>

text \<open>\<^verbatim>\<open>a + b\<close>, \<^verbatim>\<open>a / b\<close>, \<^verbatim>\<open>Math.abs(a)\<close> and \<^verbatim>\<open>a > 0\<close>.\<close>

fun fadd :: "jsnum \<Rightarrow> jsnum \<Rightarrow> jsnum" where
  "fadd (Fin a) (Fin b) = binary64 (a + b)"
| "fadd NotANumber b = NotANumber"
| "fadd a NotANumber = NotANumber"
| "fadd Infinity NegInfinity = NotANumber"
| "fadd NegInfinity Infinity = NotANumber"
| "fadd Infinity b = Infinity"
| "fadd NegInfinity b = NegInfinity"
| "fadd (Fin a) b = b"

fun fdiv :: "jsnum \<Rightarrow> jsnum \<Rightarrow> jsnum" where
  "fdiv (Fin a) (Fin b) =
     (if b = 0 then (if a = 0 then NotANumber else if 0 < a then Infinity else NegInfinity)
      else binary64 (a / b))"
| "fdiv NotANumber b = NotANumber"
| "fdiv a NotANumber = NotANumber"
| "fdiv (Fin a) b = Fin 0"
| "fdiv Infinity (Fin b) = (if b < 0 then NegInfinity else Infinity)"
| "fdiv NegInfinity (Fin b) = (if b < 0 then Infinity else NegInfinity)"
| "fdiv a b = NotANumber"

fun fabs :: "jsnum \<Rightarrow> jsnum" where
  "fabs (Fin a) = Fin \<bar>a\<bar>"
| "fabs Infinity = Infinity"
| "fabs NegInfinity = Infinity"
| "fabs NotANumber = NotANumber"

fun fpos :: "jsnum \<Rightarrow> bool" where
  "fpos (Fin a) = (0 < a)"
| "fpos Infinity = True"
| "fpos NegInfinity = False"
| "fpos NotANumber = False"

subsection \<open>Records\<close>

record closed_position =
  realizedPnl :: "rat option"
  avgPrice :: "rat option"
  title :: "string option"

text \<open>The accumulator object \<^verbatim>\<open>{ wins: 0, losses: 0, totalPnl: 0, count: 0 }\<close> of one
  bucket, and the same object once the second pass has stored \<^verbatim>\<open>winRate\<close> in it.\<close>

record bucket_acc =
  b_wins :: nat
  b_losses :: nat
  b_totalPnl :: jsnum
  b_count :: nat

record bucket = bucket_acc +
  b_winRate :: rat

text \<open>The object returned by \<^verbatim>\<open>calculateWinLossStats\<close>. The early return for an empty
  input has no \<^verbatim>\<open>breakeven\<close>, \<^verbatim>\<open>totalWinAmount\<close>, \<^verbatim>\<open>totalLossAmount\<close>, \<^verbatim>\<open>expectancy\<close> and
  \<^verbatim>\<open>closedPositions\<close> keys: these fields are \<open>None\<close> there.\<close>

record win_loss_stats =
  totalResolved :: nat
  wins :: nat
  losses :: nat
  breakeven :: "nat option"
  winRate :: rat
  totalRealizedPnL :: jsnum
  totalWinAmount :: "jsnum option"
  totalLossAmount :: "jsnum option"
  avgWinAmount :: jsnum
  avgLossAmount :: jsnum
  biggestWin :: "closed_position option"
  biggestLoss :: "closed_position option"
  profitFactor :: jsnum
  expectancy :: "jsnum option"
  winLossByCategory :: "(string \<times> bucket) list"
  winLossByPriceRange :: "(string \<times> bucket) list"
  closedPositions :: "closed_position list option"

section \<open>Shared pieces of the two bucketing passes\<close>

text \<open>\<^verbatim>\<open>x || 0\<close> on a numeric field and \<^verbatim>\<open>position.title || ''\<close>.\<close>

definition or0 :: "rat option \<Rightarrow> rat" where
  "or0 v = (case v of None \<Rightarrow> 0 | Some x \<Rightarrow> x)"

definition pnl :: "closed_position \<Rightarrow> rat" where
  "pnl p = or0 (realizedPnl p)"

definition orEmpty :: "string option \<Rightarrow> string" where
  "orEmpty v = (case v of None \<Rightarrow> [] | Some s \<Rightarrow> s)"

definition zero_bucket :: bucket_acc where
  "zero_bucket = \<lparr>b_wins = 0, b_losses = 0, b_totalPnl = Fin 0, b_count = 0\<rparr>"

text \<open>The body both \<^verbatim>\<open>forEach\<close> callbacks run on the chosen bucket:
  \<^verbatim>\<open>count++; totalPnl += realizedPnl || 0; if (pnl > 0) wins++; else if (pnl < 0) losses++\<close>.\<close>

definition tally :: "closed_position \<Rightarrow> bucket_acc \<Rightarrow> bucket_acc" where
  "tally position b =
     (let b1 = b\<lparr>b_count := b_count b + 1\<rparr>;
          b2 = b1\<lparr>b_totalPnl := fadd (b_totalPnl b1) (Fin (pnl position))\<rparr>
      in if pnl position > 0 then b2\<lparr>b_wins := b_wins b2 + 1\<rparr>
         else if pnl position < 0 then b2\<lparr>b_losses := b_losses b2 + 1\<rparr>
         else b2)"

text \<open>The second pass: \<^verbatim>\<open>data.winRate = data.count > 0 ? (data.wins / data.count) * 100 : 0\<close>.\<close>

definition rate :: "nat \<Rightarrow> nat \<Rightarrow> rat" where
  "rate w c = (if c > 0 then (of_nat w / of_nat c) * 100 else 0)"

definition setWinRate :: "bucket_acc \<Rightarrow> bucket" where
  "setWinRate d = \<lparr>b_wins = b_wins d, b_losses = b_losses d, b_totalPnl = b_totalPnl d,
                    b_count = b_count d, b_winRate = rate (b_wins d) (b_count d)\<rparr>"

section \<open>calculateWinLossByCategory\<close>

text \<open>
  \<^verbatim>\<open>toLowerCase\<close> on the UTF-8 bytes of the title. The ASCII capitals go to their small
  letters. Two characters outside ASCII have a lower-case form that contains an ASCII
  letter: the Kelvin sign U+212A (bytes E2 84 AA) becomes \<^verbatim>\<open>k\<close>, and U+0130 (bytes C4 B0)
  becomes \<^verbatim>\<open>i\<close> followed by U+0307 (bytes CC 87). Every other character outside ASCII is
  left as it is: its lower-case form has no ASCII byte either, so it takes part in no
  match with the keywords, which are all ASCII. \<^verbatim>\<open>title.includes(word)\<close> is substring search,
  here \<open>includesWord\<close>.
\<close>

definition lowerChar :: "char \<Rightarrow> char" where
  "lowerChar c =
     (case map_of (zip ''ABCDEFGHIJKLMNOPQRSTUVWXYZ'' ''abcdefghijklmnopqrstuvwxyz'') c of
        None \<Rightarrow> c | Some l \<Rightarrow> l)"

fun toLowerCase :: "string \<Rightarrow> string" where
  "toLowerCase [] = []"
| "toLowerCase (c # cs) =
     (if c = CHR 0xE2 \<and> take 2 cs = [CHR 0x84, CHR 0xAA] then CHR ''k'' # toLowerCase (drop 2 cs)
      else if c = CHR 0xC4 \<and> take 1 cs = [CHR 0xB0]
        then CHR ''i'' # CHR 0xCC # CHR 0x87 # toLowerCase (drop 1 cs)
      else lowerChar c # toLowerCase cs)"

fun startsWith :: "string \<Rightarrow> string \<Rightarrow> bool" where
  "startsWith s [] = True"
| "startsWith [] (w # ws) = False"
| "startsWith (c # cs) (w # ws) = (c = w \<and> startsWith cs ws)"

fun includesWord :: "string \<Rightarrow> string \<Rightarrow> bool" where
  "includesWord [] word = (word = [])"
| "includesWord (c # cs) word = (startsWith (c # cs) word \<or> includesWord cs word)"

text \<open>The local table \<^verbatim>\<open>keywords\<close> of \<^verbatim>\<open>calculateWinLossByCategory\<close>.\<close>

definition keywordTable :: "(string \<times> string list) list" where
  "keywordTable =
    [(''Politics'', [''election'', ''president'', ''congress'', ''senate'', ''trump'', ''biden'',
        ''democrat'', ''republican'', ''vote'', ''governor'', ''mayor'', ''political'', ''impeach'']),
     (''Sports'', [''nba'', ''nfl'', ''mlb'', ''world cup'', ''super bowl'', ''championship'',
        ''playoffs'', ''game'', ''team'', ''player'', ''match'']),
     (''Crypto'', [''bitcoin'', ''ethereum'', ''btc'', ''eth'', ''crypto'', ''token'', ''coin'',
        ''defi'', ''nft'', ''blockchain'']),
     (''Economy'', [''fed'', ''interest rate'', ''inflation'', ''gdp'', ''recession'', ''economy'',
        ''market'', ''stock'', ''treasury'', ''unemployment'']),
     (''Entertainment'', [''oscar'', ''emmy'', ''movie'', ''film'', ''album'', ''spotify'',
        ''netflix'', ''celebrity'', ''award'']),
     (''Science'', [''climate'', ''nasa'', ''space'', ''ai'', ''artificial intelligence'',
        ''scientific'', ''research'', ''temperature''])]"

text \<open>The \<^verbatim>\<open>for ... of Object.entries(keywords)\<close> loop with its \<^verbatim>\<open>break\<close>, over the
  table above; \<^verbatim>\<open>'Other'\<close> is the initial value of \<^verbatim>\<open>category\<close>.\<close>

fun classify :: "(string \<times> string list) list \<Rightarrow> string \<Rightarrow> string" where
  "classify [] t = ''Other''"
| "classify ((cat, words) # rest) t =
     (if list_ex (includesWord t) words then cat else classify rest t)"

definition categoryStep ::
  "(string \<times> bucket_acc) list \<Rightarrow> closed_position \<Rightarrow> (string \<times> bucket_acc) list" where
  "categoryStep categories position =
     (let t = toLowerCase (orEmpty (title position));
          category = classify keywordTable t;
          categories1 = (case map_of categories category of
                           None \<Rightarrow> AList.update category zero_bucket categories
                         | Some d \<Rightarrow> categories)
      in AList.map_entry category (tally position) categories1)"

definition calculateWinLossByCategory :: "closed_position list \<Rightarrow> (string \<times> bucket) list" where
  "calculateWinLossByCategory cps =
     map (\<lambda>(cat, d). (cat, setWinRate d)) (foldl categoryStep [] cps)"

section \<open>calculateWinLossByPriceRange\<close>

text \<open>The cent sign of the five labels is the two bytes C2 A2.\<close>

definition cent :: string where
  "cent = [CHR 0xC2, CHR 0xA2]"

definition Longshots :: string where
  "Longshots = ''Longshots (0-20'' @ cent @ '')''"

definition Underdogs :: string where
  "Underdogs = ''Underdogs (20-40'' @ cent @ '')''"

definition Tossups :: string where
  "Tossups = ''Toss-ups (40-60'' @ cent @ '')''"

definition Favorites :: string where
  "Favorites = ''Favorites (60-80'' @ cent @ '')''"

definition HeavyFavorites :: string where
  "HeavyFavorites = ''Heavy Favorites (80-100'' @ cent @ '')''"

definition ranges0 :: "(string \<times> bucket_acc) list" where
  "ranges0 = [(Longshots, zero_bucket), (Underdogs, zero_bucket), (Tossups, zero_bucket),
              (Favorites, zero_bucket), (HeavyFavorites, zero_bucket)]"

text \<open>The \<^verbatim>\<open>if (avgPrice <= 0.20) ... else if ... else\<close> chain, on the value of
  \<^verbatim>\<open>avgPrice\<close> and the values of the four literals.\<close>

definition rangeOf :: "rat \<Rightarrow> string" where
  "rangeOf a =
     (if a \<le> dec (20 / 100) then Longshots
      else if a \<le> dec (40 / 100) then Underdogs
      else if a \<le> dec (60 / 100) then Tossups
      else if a \<le> dec (80 / 100) then Favorites
      else HeavyFavorites)"

definition rangeStep ::
  "(string \<times> bucket_acc) list \<Rightarrow> closed_position \<Rightarrow> (string \<times> bucket_acc) list" where
  "rangeStep ranges position =
     AList.map_entry (rangeOf (or0 (avgPrice position))) (tally position) ranges"

definition calculateWinLossByPriceRange :: "closed_position list \<Rightarrow> (string \<times> bucket) list" where
  "calculateWinLossByPriceRange cps =
     map (\<lambda>(r, d). (r, setWinRate d)) (foldl rangeStep ranges0 cps)"

section \<open>calculateWinLossStats\<close>

text \<open>\<^verbatim>\<open>xs.length > 0 ? xs.reduce((best, p) => better(p, best) ? p : best, xs[0]) : null\<close>:
  \<open>pick\<close> is the reducer callback, \<open>better\<close> compares \<^verbatim>\<open>p.realizedPnl || 0\<close> with
  \<^verbatim>\<open>best.realizedPnl || 0\<close>. The fold starts from \<^verbatim>\<open>xs[0]\<close> and visits every element,
  \<^verbatim>\<open>xs[0]\<close> included.\<close>

definition pick ::
  "(rat \<Rightarrow> rat \<Rightarrow> bool) \<Rightarrow> closed_position \<Rightarrow> closed_position \<Rightarrow> closed_position" where
  "pick better best p = (if better (pnl p) (pnl best) then p else best)"

definition reduceBest ::
  "(rat \<Rightarrow> rat \<Rightarrow> bool) \<Rightarrow> closed_position list \<Rightarrow> closed_position option" where
  "reduceBest better xs =
     (case xs of
        [] \<Rightarrow> None
      | x0 # rest \<Rightarrow> Some (foldl (pick better) x0 xs))"

text \<open>\<^verbatim>\<open>xs.reduce((sum, p) => sum + (p.realizedPnl || 0), 0)\<close>.\<close>

definition sumPnl :: "closed_position list \<Rightarrow> jsnum" where
  "sumPnl xs = foldl (\<lambda>s p. fadd s (Fin (pnl p))) (Fin 0) xs"

definition emptyWinLossStats :: win_loss_stats where
  "emptyWinLossStats =
     \<lparr>totalResolved = 0, wins = 0, losses = 0, breakeven = None, winRate = 0,
      totalRealizedPnL = Fin 0, totalWinAmount = None, totalLossAmount = None,
      avgWinAmount = Fin 0, avgLossAmount = Fin 0, biggestWin = None, biggestLoss = None,
      profitFactor = Fin 0, expectancy = None, winLossByCategory = [],
      winLossByPriceRange = [], closedPositions = None\<rparr>"

text \<open>The argument is \<open>None\<close> when \<^verbatim>\<open>closedPositions\<close> is absent (\<^verbatim>\<open>undefined\<close>, \<^verbatim>\<open>null\<close>).\<close>

definition calculateWinLossStats :: "closed_position list option \<Rightarrow> win_loss_stats" where
  "calculateWinLossStats arg =
     (case arg of
        None \<Rightarrow> emptyWinLossStats
      | Some cps \<Rightarrow>
          if length cps = 0 then emptyWinLossStats
          else
            let winsL = filter (\<lambda>p. pnl p > 0) cps;
                lossesL = filter (\<lambda>p. pnl p < 0) cps;
                breakevenL = filter (\<lambda>p. pnl p = 0) cps;
                total = length cps;
                winCount = length winsL;
                lossCount = length lossesL;
                totalWin = sumPnl winsL;
                totalLoss = fabs (sumPnl lossesL);
                totalPnL = sumPnl cps
            in \<lparr>totalResolved = total,
                wins = winCount,
                losses = lossCount,
                breakeven = Some (length breakevenL),
                winRate = (if total > 0 then (of_nat winCount / of_nat total) * 100 else 0),
                totalRealizedPnL = totalPnL,
                totalWinAmount = Some totalWin,
                totalLossAmount = Some totalLoss,
                avgWinAmount = (if winCount > 0 then fdiv totalWin (Fin (of_nat winCount))
                                else Fin 0),
                avgLossAmount = (if lossCount > 0 then fdiv totalLoss (Fin (of_nat lossCount))
                                 else Fin 0),
                biggestWin = reduceBest (\<lambda>a b. a > b) winsL,
                biggestLoss = reduceBest (\<lambda>a b. a < b) lossesL,
                profitFactor = (if fpos totalLoss then fdiv totalWin totalLoss
                                else if fpos totalWin then Infinity else Fin 0),
                expectancy = Some (if total > 0 then fdiv totalPnL (Fin (of_nat total))
                                   else Fin 0),
                winLossByCategory = calculateWinLossByCategory cps,
                winLossByPriceRange = calculateWinLossByPriceRange cps,
                closedPositions = Some cps\<rparr>)"

section \<open>calculateStats and the two temporal distributions\<close>

text \<open>
  An element of \<^verbatim>\<open>activity\<close>: \<open>activityType\<close> is its \<^verbatim>\<open>type\<close> field, \<open>tradeTitle\<close> its
  \<^verbatim>\<open>title\<close>. \<^verbatim>\<open>timestamp\<close> is an integer number of seconds, \<^verbatim>\<open>side\<close> is compared with the
  strings \<^verbatim>\<open>'BUY'\<close> and \<^verbatim>\<open>'SELL'\<close>.
\<close>

record trade_record =
  activityType :: string
  timestamp :: int
  side :: string
  price :: rat
  usdcSize :: "rat option"
  conditionId :: string
  tradeTitle :: "string option"

record open_position =
  currentValue :: "rat option"
  cashPnl :: "rat option"

text \<open>The argument \<^verbatim>\<open>data\<close> of \<^verbatim>\<open>calculateStats\<close>.\<close>

record stats_input =
  in_activity :: "trade_record list"
  in_positions :: "open_position list"
  in_closedPositions :: "closed_position list option"

subsection \<open>Dates\<close>

text \<open>
  \<^verbatim>\<open>new Date(ms)\<close> holds the time value \<open>ms\<close> when \<open>\<bar>ms\<bar> \<le> 8.64 \<times> 10\<^sup>1\<^sup>5\<close> and is an invalid
  date (\<open>None\<close>) otherwise. On an invalid date \<^verbatim>\<open>getUTCHours\<close> and \<^verbatim>\<open>getUTCDay\<close> return
  \<^verbatim>\<open>NaN\<close> (\<open>None\<close>) and \<^verbatim>\<open>toISOString\<close> throws a \<^verbatim>\<open>RangeError\<close>. On a valid date the hour is
  \<open>\<lfloor>t / 3600000\<rfloor> mod 24\<close> and the weekday is \<open>(\<lfloor>t / 86400000\<rfloor> + 4) mod 7\<close>, Sunday being 0.
  The date part \<^verbatim>\<open>toISOString().split('T')[0]\<close> is represented by the day number
  \<open>\<lfloor>t / 86400000\<rfloor>\<close>, which it determines and is determined by.
\<close>

definition newDate :: "int \<Rightarrow> int option" where
  "newDate ms = (if \<bar>ms\<bar> \<le> 8640000000000000 then Some ms else None)"

definition getUTCHours :: "int option \<Rightarrow> nat option" where
  "getUTCHours d = (case d of None \<Rightarrow> None | Some t \<Rightarrow> Some (nat ((t div 3600000) mod 24)))"

definition getUTCDay :: "int option \<Rightarrow> nat option" where
  "getUTCDay d = (case d of None \<Rightarrow> None | Some t \<Rightarrow> Some (nat ((t div 86400000 + 4) mod 7)))"

datatype js_error = RangeError

definition isoDate :: "int option \<Rightarrow> js_error + int" where
  "isoDate d = (case d of None \<Rightarrow> Inl RangeError | Some t \<Rightarrow> Inr (t div 86400000))"

subsection \<open>getHourDistribution\<close>

text \<open>\<^verbatim>\<open>hours[hour]++\<close> on the array of 24 zeros. With \<^verbatim>\<open>hour = NaN\<close> the statement sets a
  property named \<^verbatim>\<open>NaN\<close> on the array object and leaves its 24 entries as they are.\<close>

definition hourStep :: "nat list \<Rightarrow> trade_record \<Rightarrow> nat list" where
  "hourStep hours trade =
     (case getUTCHours (newDate (timestamp trade * 1000)) of
        None \<Rightarrow> hours
      | Some hour \<Rightarrow> hours[hour := hours ! hour + 1])"

definition getHourDistribution :: "trade_record list \<Rightarrow> nat list" where
  "getHourDistribution trades = foldl hourStep (replicate 24 0) trades"

subsection \<open>getDayDistribution\<close>

text \<open>A counter of the \<^verbatim>\<open>days\<close> object is a count or \<^verbatim>\<open>NaN\<close>. With \<^verbatim>\<open>day = NaN\<close>,
  \<^verbatim>\<open>dayNames[day]\<close> is \<^verbatim>\<open>undefined\<close> and \<^verbatim>\<open>days[undefined]++\<close> stores \<^verbatim>\<open>NaN\<close> under the key
  \<^verbatim>\<open>'undefined'\<close>.\<close>

datatype counter = Count nat | NaN

fun increment :: "counter \<Rightarrow> counter" where
  "increment (Count n) = Count (n + 1)"
| "increment NaN = NaN"

definition dayNames :: "string list" where
  "dayNames = [''Sunday'', ''Monday'', ''Tuesday'', ''Wednesday'', ''Thursday'', ''Friday'',
               ''Saturday'']"

definition days0 :: "(string \<times> counter) list" where
  "days0 = map (\<lambda>name. (name, Count 0)) dayNames"

definition dayStep :: "(string \<times> counter) list \<Rightarrow> trade_record \<Rightarrow> (string \<times> counter) list" where
  "dayStep days trade =
     (case getUTCDay (newDate (timestamp trade * 1000)) of
        None \<Rightarrow> AList.update ''undefined'' NaN days
      | Some day \<Rightarrow> AList.map_entry (dayNames ! day) increment days)"

definition getDayDistribution :: "trade_record list \<Rightarrow> (string \<times> counter) list" where
  "getDayDistribution trades = foldl dayStep days0 trades"

subsection \<open>toFixed\<close>

text \<open>
  \<^verbatim>\<open>x.toFixed(f)\<close> for a finite \<open>x\<close> with \<open>\<bar>x\<bar> < 10\<^sup>2\<^sup>1\<close>: \<open>n\<close> is the integer nearest to
  \<open>\<bar>x\<bar> \<times> 10\<^sup>f\<close>, the larger one on a tie; its decimal digits are padded with zeros to
  \<open>f + 1\<close> digits and the point is put before the last \<open>f\<close> of them. \<open>x\<close> is the exact value
  of the binary64 number. A quotient of two array lengths is below \<open>2\<^sup>3\<^sup>2\<close>, so the
  exponent notation used from \<open>10\<^sup>2\<^sup>1\<close> on is never reached. A number that is not finite
  is printed by name.
\<close>

fun digitsOf :: "nat \<Rightarrow> string" where
  "digitsOf n =
     (if n < 10 then [''0123456789'' ! n]
      else digitsOf (n div 10) @ [''0123456789'' ! (n mod 10)])"

declare digitsOf.simps [simp del]

definition toFixed :: "nat \<Rightarrow> rat \<Rightarrow> string" where
  "toFixed f x =
     (let s = (if x < 0 then ''-'' else '''');
          n = nat \<lfloor>\<bar>x\<bar> * 10 ^ f + 1 / 2\<rfloor>;
          m = digitsOf n;
          m1 = (if f \<noteq> 0 \<and> length m \<le> f then replicate (f + 1 - length m) (CHR ''0'') @ m else m);
          k = length m1
      in if f \<noteq> 0 then s @ take (k - f) m1 @ ''.'' @ drop (k - f) m1 else s @ m1)"

fun toFixedNum :: "nat \<Rightarrow> jsnum \<Rightarrow> string" where
  "toFixedNum f (Fin x) = toFixed f x"
| "toFixedNum f Infinity = ''Infinity''"
| "toFixedNum f NegInfinity = ''-Infinity''"
| "toFixedNum f NotANumber = ''NaN''"

text \<open>The infinity sign is the three bytes E2 88 9E.\<close>

definition infinitySign :: string where
  "infinitySign = [CHR 0xE2, CHR 0x88, CHR 0x9E]"

subsection \<open>calculateStats\<close>

text \<open>
  The result of \<^verbatim>\<open>calculateStats\<close>; \<open>winLossStats\<close> holds the fields spread into it by
  \<^verbatim>\<open>...winLossStats\<close>, \<open>positions\<close> is \<^verbatim>\<open>positions.length\<close>. The fields \<^verbatim>\<open>firstTrade\<close>,
  \<^verbatim>\<open>lastTrade\<close>, \<^verbatim>\<open>tradesPerDay\<close>, \<^verbatim>\<open>marketCategories\<close> and \<^verbatim>\<open>monthlyVolume\<close> are left out:
  nothing below reads them and computing them cannot throw.
\<close>

record stats =
  totalTrades :: nat
  totalVolume :: jsnum
  uniqueMarkets :: nat
  avgTradeSize :: jsnum
  buys :: nat
  sells :: nat
  buySellRatio :: string
  tradingDays :: nat
  buyVolume :: jsnum
  sellVolume :: jsnum
  avgBuyPrice :: jsnum
  avgSellPrice :: jsnum
  totalPositionValue :: jsnum
  totalUnrealizedPnL :: jsnum
  hourDistribution :: "nat list"
  dayDistribution :: "(string \<times> counter) list"
  positions :: nat
  winLossStats :: win_loss_stats

text \<open>\<^verbatim>\<open>trades.map(t => new Date(t.timestamp * 1000).toISOString().split('T')[0])\<close>: the first
  invalid date throws.\<close>

fun tradeDates :: "trade_record list \<Rightarrow> js_error + int list" where
  "tradeDates [] = Inr []"
| "tradeDates (t # ts) =
     (case isoDate (newDate (timestamp t * 1000)) of
        Inl e \<Rightarrow> Inl e
      | Inr d \<Rightarrow> (case tradeDates ts of Inl e \<Rightarrow> Inl e | Inr ds \<Rightarrow> Inr (d # ds)))"

definition calculateStats :: "stats_input \<Rightarrow> js_error + stats" where
  "calculateStats data =
     (let trades = filter (\<lambda>a. activityType a = ''TRADE'') (in_activity data);
          total = length trades;
          volume = foldl (\<lambda>sum trade. fadd sum (Fin (or0 (usdcSize trade)))) (Fin 0) trades;
          buyCount = length (filter (\<lambda>t. side t = ''BUY'') trades);
          sellCount = length (filter (\<lambda>t. side t = ''SELL'') trades);
          ratio = (if sellCount > 0
                   then toFixedNum 2 (fdiv (Fin (of_nat buyCount)) (Fin (of_nat sellCount)))
                   else if buyCount > 0 then infinitySign else ''-'')
      in case tradeDates trades of
           Inl e \<Rightarrow> Inl e
         | Inr dates \<Rightarrow>
             Inr \<lparr>totalTrades = total,
                  totalVolume = volume,
                  uniqueMarkets = length (remdups (map conditionId trades)),
                  avgTradeSize = (if total > 0 then fdiv volume (Fin (of_nat total)) else Fin 0),
                  buys = buyCount,
                  sells = sellCount,
                  buySellRatio = ratio,
                  tradingDays = length (remdups dates),
                  buyVolume = foldl (\<lambda>sum t. fadd sum (Fin (or0 (usdcSize t)))) (Fin 0)
                                (filter (\<lambda>t. side t = ''BUY'') trades),
                  sellVolume = foldl (\<lambda>sum t. fadd sum (Fin (or0 (usdcSize t)))) (Fin 0)
                                 (filter (\<lambda>t. side t = ''SELL'') trades),
                  avgBuyPrice = (if buyCount > 0
                                 then fdiv (foldl (\<lambda>sum t. fadd sum (Fin (price t))) (Fin 0)
                                              (filter (\<lambda>t. side t = ''BUY'') trades))
                                        (Fin (of_nat buyCount))
                                 else Fin 0),
                  avgSellPrice = (if sellCount > 0
                                  then fdiv (foldl (\<lambda>sum t. fadd sum (Fin (price t))) (Fin 0)
                                               (filter (\<lambda>t. side t = ''SELL'') trades))
                                         (Fin (of_nat sellCount))
                                  else Fin 0),
                  totalPositionValue = foldl (\<lambda>sum p. fadd sum (Fin (or0 (currentValue p))))
                                         (Fin 0) (in_positions data),
                  totalUnrealizedPnL = foldl (\<lambda>sum p. fadd sum (Fin (or0 (cashPnl p)))) (Fin 0)
                                         (in_positions data),
                  hourDistribution = getHourDistribution trades,
                  dayDistribution = getDayDistribution trades,
                  positions = length (in_positions data),
                  winLossStats = calculateWinLossStats (in_closedPositions data)\<rparr>)"

section \<open>Concrete inputs and auxiliary notions\<close>

text \<open>
  Notions used to state how \<open>binary64\<close> rounds a positive \<open>x\<close>: the exponent it works at,
  the spacing of the binary64 values there, and the integer significand it chooses.
\<close>

definition expOf :: "rat \<Rightarrow> int" where
  "expOf x = max (ilog2 x) (- 1022)"

definition ulp :: "rat \<Rightarrow> rat" where
  "ulp x = 2 powi (expOf x - 52)"

definition sig :: "rat \<Rightarrow> int" where
  "sig x = roundHalfEven (x / ulp x)"

text \<open>
  A quotient overflows to \<^verbatim>\<open>Infinity\<close> from \<open>2\<^sup>1\<^sup>0\<^sup>2\<^sup>4 - 2\<^sup>9\<^sup>7\<^sup>0\<close> on, half a spacing above the
  largest binary64 number, and underflows to 0 up to \<open>2\<^sup>-\<^sup>1\<^sup>0\<^sup>7\<^sup>5\<close>, half the least positive
  one.
\<close>

definition overflowThreshold :: rat where
  "overflowThreshold = 2 powi 1024 - 2 powi 970"

definition underflowThreshold :: rat where
  "underflowThreshold = 2 powi (- 1075)"

fun nonnegNum :: "jsnum \<Rightarrow> bool" where
  "nonnegNum (Fin a) = (0 \<le> a)"
| "nonnegNum Infinity = True"
| "nonnegNum NegInfinity = False"
| "nonnegNum NotANumber = False"

fun nonposNum :: "jsnum \<Rightarrow> bool" where
  "nonposNum (Fin a) = (a \<le> 0)"
| "nonposNum NegInfinity = True"
| "nonposNum Infinity = False"
| "nonposNum NotANumber = False"

text \<open>
  \<open>quotientOverflows W L\<close>: \<open>L\<close> is positive and finite, and \<open>W / L\<close> is \<^verbatim>\<open>Infinity\<close> because
  \<open>W\<close> is, or because the exact quotient reaches the overflow threshold.
  \<open>quotientUnderflows W L\<close>: \<open>W\<close> is positive and finite, and \<open>W / L\<close> is 0 because \<open>L\<close> is
  \<^verbatim>\<open>Infinity\<close>, or because the exact quotient is at most the underflow threshold.
\<close>

fun quotientOverflows :: "jsnum \<Rightarrow> jsnum \<Rightarrow> bool" where
  "quotientOverflows (Fin w) (Fin l) = (0 < l \<and> overflowThreshold \<le> w / l)"
| "quotientOverflows Infinity (Fin l) = (0 < l)"
| "quotientOverflows W L = False"

fun quotientUnderflows :: "jsnum \<Rightarrow> jsnum \<Rightarrow> bool" where
  "quotientUnderflows (Fin w) (Fin l) = (0 < l \<and> 0 < w \<and> w / l \<le> underflowThreshold)"
| "quotientUnderflows (Fin w) Infinity = (0 < w)"
| "quotientUnderflows W L = False"

text \<open>The two closed positions of the specification's scenario (entered at 0.15 and at
  0.70), a break-even position with every field missing, a lone loss entered at 0.20, a
  second win of 50, and a position with nothing but an entry price.\<close>

definition btcWin :: closed_position where
  "btcWin = \<lparr>realizedPnl = Some 50, avgPrice = Some (dec (15 / 100)), title = Some ''Will BTC hit 100k''\<rparr>"

definition nbaLoss :: closed_position where
  "nbaLoss = \<lparr>realizedPnl = Some (- 20), avgPrice = Some (dec (70 / 100)), title = Some ''NBA Finals Winner''\<rparr>"

definition flat :: closed_position where
  "flat = \<lparr>realizedPnl = None, avgPrice = None, title = None\<rparr>"

definition smallLoss :: closed_position where
  "smallLoss = \<lparr>realizedPnl = Some (- 1), avgPrice = Some (dec (20 / 100)), title = None\<rparr>"

definition lateWin :: closed_position where
  "lateWin = \<lparr>realizedPnl = Some 50, avgPrice = Some (dec (90 / 100)), title = Some ''Oscar night''\<rparr>"

definition atPrice :: "rat \<Rightarrow> closed_position" where
  "atPrice a = \<lparr>realizedPnl = None, avgPrice = Some a, title = None\<rparr>"

definition rangeLabels :: "string list" where
  "rangeLabels = [Longshots, Underdogs, Tossups, Favorites, HeavyFavorites]"

text \<open>The \<^verbatim>\<open>count\<close> stored under a label, 0 when the label is not a key.\<close>

definition labelCount :: "(string \<times> 'a bucket_acc_scheme) list \<Rightarrow> string \<Rightarrow> nat" where
  "labelCount al l = (case map_of al l of None \<Rightarrow> 0 | Some b \<Rightarrow> b_count b)"

definition totalCount :: "(string \<times> 'a bucket_acc_scheme) list \<Rightarrow> nat" where
  "totalCount al = sum_list (map (\<lambda>(k, b). b_count b) al)"

definition bucket_ok :: "'a bucket_acc_scheme \<Rightarrow> bool" where
  "bucket_ok b = (b_wins b + b_losses b \<le> b_count b)"

text \<open>\<open>first_best better ys r\<close>: \<open>r\<close> occurs in \<open>ys\<close>, beats everything before that
  occurrence and is beaten by nothing in \<open>ys\<close>.\<close>

definition first_best ::
  "(rat \<Rightarrow> rat \<Rightarrow> bool) \<Rightarrow> closed_position list \<Rightarrow> closed_position \<Rightarrow> bool" where
  "first_best better ys r =
     (\<exists>pre post. ys = pre @ r # post
        \<and> (\<forall>q \<in> set pre. better (pnl r) (pnl q))
        \<and> (\<forall>q \<in> set ys. \<not> better (pnl q) (pnl r)))"

text \<open>Trades and inputs used as concrete instances below: a buy on Thursday 1 January 1970
  at 00:00 UTC, a sell on the next day at 13:00 UTC, a non-trade activity, and a trade whose
  timestamp lies beyond the range of \<^verbatim>\<open>Date\<close>.\<close>

definition epochBuy :: trade_record where
  "epochBuy = \<lparr>activityType = ''TRADE'', timestamp = 0, side = ''BUY'', price = 1 / 2,
               usdcSize = Some 10, conditionId = ''0xa'', tradeTitle = None\<rparr>"

definition fridaySell :: trade_record where
  "fridaySell = \<lparr>activityType = ''TRADE'', timestamp = 133200, side = ''SELL'', price = 3 / 4,
                 usdcSize = None, conditionId = ''0xb'', tradeTitle = None\<rparr>"

definition redeem :: trade_record where
  "redeem = \<lparr>activityType = ''REDEEM'', timestamp = 0, side = ''BUY'', price = 1,
             usdcSize = None, conditionId = ''0xa'', tradeTitle = None\<rparr>"

definition farTrade :: trade_record where
  "farTrade = \<lparr>activityType = ''TRADE'', timestamp = 10000000000000, side = ''BUY'', price = 1 / 2,
               usdcSize = None, conditionId = ''0xc'', tradeTitle = None\<rparr>"

definition validTime :: "trade_record \<Rightarrow> bool" where
  "validTime t = (\<bar>timestamp t\<bar> \<le> 8640000000000)"

fun countOf :: "counter option \<Rightarrow> nat" where
  "countOf (Some (Count n)) = n"
| "countOf (Some NaN) = 0"
| "countOf None = 0"

text \<open>The sum of the seven weekday counters of a \<^verbatim>\<open>days\<close> object.\<close>

definition weekdayTotal :: "(string \<times> counter) list \<Rightarrow> nat" where
  "weekdayTotal days = sum_list (map (\<lambda>name. countOf (map_of days name)) dayNames)"

definition twoTrades :: stats_input where
  "twoTrades = \<lparr>in_activity = [epochBuy, redeem, fridaySell], in_positions = [],
                in_closedPositions = None\<rparr>"

text \<open>Three buys and forty sells.\<close>

definition manyTrades :: stats_input where
  "manyTrades = \<lparr>in_activity = replicate 3 epochBuy @ replicate 40 fridaySell,
                 in_positions = [], in_closedPositions = None\<rparr>"

definition onlyBuy :: stats_input where
  "onlyBuy = \<lparr>in_activity = [epochBuy], in_positions = [], in_closedPositions = Some []\<rparr>"

definition noActivity :: stats_input where
  "noActivity = \<lparr>in_activity = [redeem], in_positions = [], in_closedPositions = None\<rparr>"

text \<open>The filtered list \<^verbatim>\<open>trades\<close> of \<^verbatim>\<open>calculateStats\<close>.\<close>

definition tradesOf :: "stats_input \<Rightarrow> trade_record list" where
  "tradesOf data = filter (\<lambda>a. activityType a = ''TRADE'') (in_activity data)"

definition entryTotal :: "(string \<times> counter) list \<Rightarrow> nat" where
  "entryTotal al = sum_list (map (\<lambda>(k, c). countOf (Some c)) al)"

text \<open>The decimal rendering of \<open>n / 100\<close> with exactly two fraction digits.\<close>

definition digit :: "nat \<Rightarrow> char" where
  "digit d = ''0123456789'' ! d"

definition twoDecimals :: "nat \<Rightarrow> string" where
  "twoDecimals n = digitsOf (n div 100) @ ''.'' @ [digit (n div 10 mod 10), digit (n mod 10)]"

section \<open>Auxiliary lemmas\<close>

subsection \<open>Rounding to binary64: exponent, sign, zero, overflow and error\<close>

lemma bitLength_pos:
  "0 < n \<Longrightarrow> 1 \<le> bitLength n \<and> 2 ^ nat (bitLength n - 1) \<le> n \<and> n < 2 ^ nat (bitLength n)"
proof (induction n rule: bitLength.induct)
  case (1 n)
  show ?case
  proof (cases "n = 1")
    case True
    have "bitLength 1 = 1" by (simp add: bitLength.simps[of 1] bitLength.simps[of 0])
    then show ?thesis using True by simp
  next
    case False
    with "1.prems" have m: "0 < n div 2" by simp
    from "1.IH"[OF _ m] "1.prems"
    have ih: "1 \<le> bitLength (n div 2)" "2 ^ nat (bitLength (n div 2) - 1) \<le> n div 2"
      "n div 2 < 2 ^ nat (bitLength (n div 2))" by simp_all
    define k where "k = bitLength (n div 2)"
    have b: "bitLength n = 1 + k" using "1.prems" by (simp add: bitLength.simps[of n] k_def)
    have e1: "nat (1 + k - 1) = Suc (nat (k - 1))" using ih(1) by (simp add: k_def)
    have e2: "nat (1 + k) = Suc (nat k)" using ih(1) by (simp add: k_def)
    have "(2::int) ^ nat (1 + k - 1) \<le> n" using ih(2) unfolding e1 k_def[symmetric] by simp
    moreover have "n < 2 ^ nat (1 + k)" using ih(3) unfolding e2 k_def[symmetric] by simp
    ultimately show ?thesis using b ih(1) by (simp add: k_def)
  qed
qed

lemma bitLength_powi:
  assumes "0 < n"
  shows "(2::rat) powi (bitLength n - 1) \<le> of_int n" "(of_int n :: rat) < 2 powi (bitLength n)"
proof -
  note b = bitLength_pos[OF assms]
  have "(of_int (2 ^ nat (bitLength n - 1)) :: rat) \<le> of_int n" using b by (simp only: of_int_le_iff)
  then show "(2::rat) powi (bitLength n - 1) \<le> of_int n"
    using b by (simp add: power_int_def)
  have "(of_int n :: rat) < of_int (2 ^ nat (bitLength n))" using b by (simp only: of_int_less_iff)
  then show "(of_int n :: rat) < 2 powi (bitLength n)"
    using b by (simp add: power_int_def)
qed

lemma ilog2_bounds:
  assumes "0 < x"
  shows "2 powi (ilog2 x) \<le> x" "x < 2 powi (ilog2 x + 1)"
proof -
  obtain p q where pq: "quotient_of x = (p, q)" by (cases "quotient_of x")
  have q: "0 < q" using pq by (rule quotient_of_denom_pos)
  have x: "x = of_int p / of_int q" using pq by (rule quotient_of_div)
  have p: "0 < p" using assms q x by (simp add: zero_less_divide_iff)
  define e0 where "e0 = bitLength p - bitLength q"
  note bp = bitLength_powi[OF p] and bq = bitLength_powi[OF q]
  have qr: "(0::rat) < of_int q" using q by simp
  have up: "x < 2 powi (e0 + 1)"
  proof -
    have "of_int p < (2::rat) powi (bitLength p)" by (rule bp)
    also have "\<dots> = 2 powi (e0 + 1) * 2 powi (bitLength q - 1)"
      by (simp add: e0_def power_int_add[symmetric])
    also have "\<dots> \<le> 2 powi (e0 + 1) * of_int q"
      using bq(1) by (intro mult_left_mono) simp_all
    finally show ?thesis using qr by (simp add: x pos_divide_less_eq)
  qed
  have lo: "2 powi (e0 - 1) \<le> x"
  proof -
    have "2 powi (e0 - 1) * of_int q \<le> 2 powi (e0 - 1) * (2::rat) powi (bitLength q)"
      using bq(2) by (intro mult_left_mono) simp_all
    also have "\<dots> = 2 powi (bitLength p - 1)"
      by (simp add: e0_def power_int_add[symmetric])
    also have "\<dots> \<le> of_int p" by (rule bp)
    finally show ?thesis using qr by (simp add: x pos_le_divide_eq)
  qed
  have e: "ilog2 x = (if 2 powi e0 \<le> x then e0 else e0 - 1)"
    by (simp add: ilog2_def pq e0_def Let_def)
  show "2 powi (ilog2 x) \<le> x" using lo by (simp add: e)
  show "x < 2 powi (ilog2 x + 1)" using up by (simp add: e not_le)
qed

lemma roundHalfEven_cases:
  "roundHalfEven y = \<lfloor>y\<rfloor> \<and> y - of_int \<lfloor>y\<rfloor> \<le> 1 / 2
   \<or> roundHalfEven y = \<lfloor>y\<rfloor> + 1 \<and> 1 / 2 \<le> y - of_int \<lfloor>y\<rfloor>"
  by (auto simp: roundHalfEven_def Let_def)

lemma roundHalfEven_bounds:
  "of_int (roundHalfEven y) \<le> y + 1 / 2" "y - 1 / 2 \<le> of_int (roundHalfEven y)"
proof -
  have f: "of_int \<lfloor>y\<rfloor> \<le> y" "y < of_int \<lfloor>y\<rfloor> + 1" by linarith+
  from roundHalfEven_cases[of y] show "of_int (roundHalfEven y) \<le> y + 1 / 2"
  proof
    assume "roundHalfEven y = \<lfloor>y\<rfloor> \<and> y - of_int \<lfloor>y\<rfloor> \<le> 1 / 2"
    then have "of_int (roundHalfEven y) = (of_int \<lfloor>y\<rfloor> :: rat)" by simp
    then show ?thesis using f by linarith
  next
    assume a: "roundHalfEven y = \<lfloor>y\<rfloor> + 1 \<and> 1 / 2 \<le> y - of_int \<lfloor>y\<rfloor>"
    then have "of_int (roundHalfEven y) = of_int \<lfloor>y\<rfloor> + (1::rat)" by simp
    then show ?thesis using a by linarith
  qed
  from roundHalfEven_cases[of y] show "y - 1 / 2 \<le> of_int (roundHalfEven y)"
  proof
    assume a: "roundHalfEven y = \<lfloor>y\<rfloor> \<and> y - of_int \<lfloor>y\<rfloor> \<le> 1 / 2"
    then have "of_int (roundHalfEven y) = (of_int \<lfloor>y\<rfloor> :: rat)" by simp
    then show ?thesis using a by linarith
  next
    assume a: "roundHalfEven y = \<lfloor>y\<rfloor> + 1 \<and> 1 / 2 \<le> y - of_int \<lfloor>y\<rfloor>"
    then have "of_int (roundHalfEven y) = of_int \<lfloor>y\<rfloor> + (1::rat)" by simp
    then show ?thesis using f by linarith
  qed
qed

lemma roundHalfEven_nonneg: "0 \<le> y \<Longrightarrow> 0 \<le> roundHalfEven y"
  by (auto simp: roundHalfEven_def Let_def)

lemma roundHalfEven_zero: "0 \<le> y \<Longrightarrow> roundHalfEven y = 0 \<longleftrightarrow> y \<le> 1 / 2"
proof
  assume a: "0 \<le> y" "roundHalfEven y = 0"
  from roundHalfEven_bounds(2)[of y] a show "y \<le> 1 / 2" by simp
next
  assume a: "0 \<le> y" "y \<le> 1 / 2"
  then have f: "\<lfloor>y\<rfloor> = 0" by (simp add: floor_eq_iff)
  show "roundHalfEven y = 0" using a by (auto simp: roundHalfEven_def Let_def f)
qed

lemma roundHalfEven_ge:
  assumes "of_int k - 1 / 2 \<le> y" "even k"
  shows "k \<le> roundHalfEven y"
proof (cases "of_int k \<le> y")
  case True
  then have "k \<le> \<lfloor>y\<rfloor>" by (simp add: le_floor_iff)
  then show ?thesis by (auto simp: roundHalfEven_def Let_def)
next
  case False
  then have f: "\<lfloor>y\<rfloor> = k - 1" using assms(1) by (simp add: floor_eq_iff)
  have r: "1 / 2 \<le> y - of_int (k - 1)" using assms(1) by simp
  have o: "odd (k - 1)" using assms(2) by simp
  show ?thesis using r o by (auto simp: roundHalfEven_def Let_def f)
qed

lemma binary64_pos:
  "0 < x \<Longrightarrow> binary64 x = (if 2 powi 1024 \<le> of_int (sig x) * ulp x then Infinity
                               else Fin (of_int (sig x) * ulp x))"
  by (simp add: binary64_def Let_def sig_def ulp_def expOf_def)

lemma binary64_neg:
  "x < 0 \<Longrightarrow> binary64 x = (if 2 powi 1024 \<le> of_int (sig (- x)) * ulp (- x) then NegInfinity
                               else Fin (- (of_int (sig (- x)) * ulp (- x))))"
  by (simp add: binary64_def Let_def sig_def ulp_def expOf_def)

lemma ulp_pos: "0 < ulp x"
  by (simp add: ulp_def)

lemma sig_nonneg: "0 < x \<Longrightarrow> 0 \<le> sig x"
  unfolding sig_def using ulp_pos[of x] by (intro roundHalfEven_nonneg) simp

lemma expOf_upper: "0 < x \<Longrightarrow> x < 2 powi (expOf x + 1)"
proof -
  assume x: "0 < x"
  have "x < 2 powi (ilog2 x + 1)" using x by (rule ilog2_bounds)
  also have "\<dots> \<le> 2 powi (expOf x + 1)"
    by (intro power_int_increasing) (simp_all add: expOf_def)
  finally show ?thesis .
qed

lemma two_powi_less_imp: "(2::rat) powi a < 2 powi b \<Longrightarrow> a < b"
  by (rule ccontr) (use power_int_increasing[of b a "2::rat"] in simp)

lemma two_powi_le_imp: "(2::rat) powi a \<le> 2 powi b \<Longrightarrow> a \<le> b"
  by (rule ccontr) (use power_int_strict_increasing[of b a "2::rat"] in simp)

lemma sig_scaled: "of_int (sig x) * ulp x \<le> x + ulp x / 2" "x - ulp x / 2 \<le> of_int (sig x) * ulp x"
proof -
  note u = ulp_pos[of x]
  from roundHalfEven_bounds[of "x / ulp x"]
  have a: "of_int (sig x) \<le> x / ulp x + 1 / 2" and b: "x / ulp x - 1 / 2 \<le> of_int (sig x)"
    by (simp_all add: sig_def)
  have e1: "(x / ulp x + 1 / 2) * ulp x = x + ulp x / 2"
    using u by (simp add: distrib_right)
  have e2: "(x / ulp x - 1 / 2) * ulp x = x - ulp x / 2"
    using u by (simp add: left_diff_distrib)
  from a have "of_int (sig x) * ulp x \<le> (x / ulp x + 1 / 2) * ulp x"
    using u by (intro mult_right_mono) simp_all
  then show "of_int (sig x) * ulp x \<le> x + ulp x / 2" by (simp only: e1)
  from b have "(x / ulp x - 1 / 2) * ulp x \<le> of_int (sig x) * ulp x"
    using u by (intro mult_right_mono) simp_all
  then show "x - ulp x / 2 \<le> of_int (sig x) * ulp x" by (simp only: e2)
qed

lemma binary64_sign_pos:
  "0 < x \<Longrightarrow> binary64 x = Infinity \<or> (\<exists>r. binary64 x = Fin r \<and> 0 \<le> r)"
  using sig_nonneg[of x] ulp_pos[of x] by (auto simp: binary64_pos)

lemma binary64_sign_neg:
  "x < 0 \<Longrightarrow> binary64 x = NegInfinity \<or> (\<exists>r. binary64 x = Fin r \<and> r \<le> 0)"
  using sig_nonneg[of "- x"] ulp_pos[of "- x"] by (auto simp: binary64_neg)

lemma binary64_zero_iff:
  assumes "0 < x"
  shows "binary64 x = Fin 0 \<longleftrightarrow> x \<le> 2 powi (- 1075)"
proof -
  note u = ulp_pos[of x]
  have h: "ulp x / 2 = 2 powi (expOf x - 53)"
    by (simp add: ulp_def power_int_diff)
  have z: "binary64 x = Fin 0 \<longleftrightarrow> sig x = 0"
    using u by (auto simp: binary64_pos[OF assms])
  have "sig x = 0 \<longleftrightarrow> x / ulp x \<le> 1 / 2"
    unfolding sig_def using assms u by (intro roundHalfEven_zero) simp
  also have "\<dots> \<longleftrightarrow> x \<le> ulp x / 2" using u by (simp add: field_simps)
  finally have s: "sig x = 0 \<longleftrightarrow> x \<le> 2 powi (expOf x - 53)" by (simp add: h)
  show ?thesis
  proof
    assume "binary64 x = Fin 0"
    then have le: "x \<le> 2 powi (expOf x - 53)" using z s by simp
    have "expOf x \<noteq> ilog2 x"
    proof
      assume "expOf x = ilog2 x"
      then have "2 powi (expOf x) \<le> x" using ilog2_bounds(1)[OF assms] by simp
      with le have "(2::rat) powi (expOf x) \<le> 2 powi (expOf x - 53)" by simp
      moreover have "(2::rat) powi (expOf x - 53) < 2 powi (expOf x)"
        by (intro power_int_strict_increasing) simp_all
      ultimately show False by simp
    qed
    then have "expOf x = - 1022" by (simp add: expOf_def max_def split: if_splits)
    with le show "x \<le> 2 powi (- 1075)" by simp
  next
    assume le: "x \<le> 2 powi (- 1075)"
    have "2 powi (ilog2 x) \<le> x" using assms by (rule ilog2_bounds)
    from this le have "(2::rat) powi (ilog2 x) \<le> 2 powi (- 1075)" by (rule order_trans)
    then have "ilog2 x \<le> - 1075" by (rule two_powi_le_imp)
    then have "expOf x = - 1022" by (simp add: expOf_def)
    with le have "x \<le> 2 powi (expOf x - 53)" by simp
    then show "binary64 x = Fin 0" using z s by simp
  qed
qed

lemma binary64_inf_iff_raw:
  "0 < x \<Longrightarrow> binary64 x = Infinity \<longleftrightarrow> 2 powi 1024 \<le> of_int (sig x) * ulp x"
  by (simp add: binary64_pos)

lemma sig_ge:
  assumes "of_int k - 1 / 2 \<le> x / ulp x" "even k"
  shows "of_int k * ulp x \<le> of_int (sig x) * ulp x"
proof -
  have "k \<le> sig x" unfolding sig_def using assms by (rule roundHalfEven_ge)
  then have "(of_int k :: rat) \<le> of_int (sig x)" by simp
  then show ?thesis using ulp_pos[of x] by (intro mult_right_mono) simp_all
qed

lemma sig_le:
  assumes "x / ulp x + 1 / 2 < of_int k + 1"
  shows "of_int (sig x) * ulp x \<le> of_int k * ulp x"
proof -
  have "of_int (sig x) \<le> x / ulp x + 1 / 2" unfolding sig_def by (rule roundHalfEven_bounds)
  with assms have "(of_int (sig x) :: rat) < of_int k + 1" by simp
  then have "(of_int (sig x) :: rat) < of_int (k + 1)" by simp
  then have "sig x < k + 1" by (simp only: of_int_less_iff)
  then have "(of_int (sig x) :: rat) \<le> of_int k" by simp
  then show ?thesis using ulp_pos[of x] by (intro mult_right_mono) simp_all
qed

lemma two_powi_split: "(2::rat) powi (e - k) * 2 powi k = 2 powi e"
  by (simp add: power_int_add[symmetric])

lemma ulp_52: "ulp x * 2 powi 52 = 2 powi (expOf x)"
  unfolding ulp_def by (rule two_powi_split)

lemma ulp_53: "ulp x * 2 powi 53 = 2 powi (expOf x + 1)"
  unfolding ulp_def using two_powi_split[of "expOf x + 1" 53] by simp

lemma overflow_up:
  assumes x: "0 < x" and t: "2 powi 1024 - 2 powi 970 \<le> x"
  shows "2 powi 1024 \<le> of_int (sig x) * ulp x"
proof -
  have "(2::rat) powi 1023 \<le> 2 powi 1024 - 2 powi 970" by simp
  with t have "(2::rat) powi 1023 \<le> x" by simp
  also have "x < 2 powi (ilog2 x + 1)" using x by (rule ilog2_bounds)
  finally have "1023 < ilog2 x + 1" by (rule two_powi_less_imp)
  then have e: "expOf x = ilog2 x" "1023 \<le> expOf x" by (simp_all add: expOf_def)
  show ?thesis
  proof (cases "expOf x = 1023")
    case True
    then have u: "ulp x = 2 powi 971" by (simp add: ulp_def)
    have "(2 powi 1024 - 2 powi 970) / 2 powi 971 \<le> x / ulp x"
      unfolding u using t by (intro divide_right_mono) simp_all
    moreover have "(2 powi 1024 - 2 powi 970) / 2 powi 971 = (of_int (2 ^ 53) :: rat) - 1 / 2"
      by simp
    ultimately have "of_int (2 ^ 53) - 1 / 2 \<le> x / ulp x" by simp
    then have "of_int (2 ^ 53) * ulp x \<le> of_int (sig x) * ulp x"
      by (rule sig_ge) simp
    moreover have "of_int (2 ^ 53) * ulp x = 2 powi 1024" unfolding u by simp
    ultimately show ?thesis by simp
  next
    case False
    with e have g: "1024 \<le> expOf x" by simp
    note u = ulp_52[of x]
    have lo: "2 powi (expOf x) \<le> x" using ilog2_bounds(1)[OF x] e by simp
    have "(2::rat) powi 52 = 2 powi (expOf x) / ulp x"
      using ulp_pos[of x] by (simp add: u[symmetric])
    also have "\<dots> \<le> x / ulp x" using lo ulp_pos[of x] by (intro divide_right_mono) simp_all
    finally have "(2::rat) powi 52 \<le> x / ulp x" .
    moreover have "(2::rat) powi 52 = of_int (2 ^ 52)" by simp
    ultimately have "of_int (2 ^ 52) - 1 / 2 \<le> x / ulp x" by linarith
    then have "of_int (2 ^ 52) * ulp x \<le> of_int (sig x) * ulp x"
      by (rule sig_ge) simp
    moreover have "of_int (2 ^ 52) * ulp x = 2 powi (expOf x)"
      using u by (simp add: mult.commute)
    moreover have "(2::rat) powi 1024 \<le> 2 powi (expOf x)"
      using g by (intro power_int_increasing) simp_all
    ultimately show ?thesis by simp
  qed
qed

lemma overflow_down:
  assumes x: "0 < x" and t: "x < 2 powi 1024 - 2 powi 970"
  shows "of_int (sig x) * ulp x < 2 powi 1024"
proof -
  have "2 powi (ilog2 x) \<le> x" using x by (rule ilog2_bounds)
  also have "x < 2 powi 1024" using t by simp
  finally have "ilog2 x < 1024" by (rule two_powi_less_imp)
  then have e: "expOf x \<le> 1023" by (simp add: expOf_def)
  show ?thesis
  proof (cases "expOf x = 1023")
    case True
    then have u: "ulp x = 2 powi 971" by (simp add: ulp_def)
    define y where "y = x / ulp x"
    have "y < (2 powi 1024 - 2 powi 970) / 2 powi 971"
      unfolding u y_def using t by (intro divide_strict_right_mono) simp_all
    moreover have "(2 powi 1024 - 2 powi 970) / 2 powi 971 = (of_int (2 ^ 53 - 1) :: rat) + 1 / 2"
      by simp
    ultimately have "y + 1 / 2 < of_int (2 ^ 53 - 1) + 1" by linarith
    then have "x / ulp x + 1 / 2 < of_int (2 ^ 53 - 1) + 1" by (simp only: y_def)
    then have "of_int (sig x) * ulp x \<le> of_int (2 ^ 53 - 1) * ulp x" by (rule sig_le)
    moreover have "of_int (2 ^ 53 - 1) * ulp x < 2 powi 1024" unfolding u by simp
    ultimately show ?thesis by simp
  next
    case False
    with e have g: "expOf x + 1 \<le> 1023" by simp
    note u = ulp_53[of x]
    have "x / ulp x < 2 powi (expOf x + 1) / ulp x"
      using expOf_upper[OF x] ulp_pos[of x] by (intro divide_strict_right_mono) simp_all
    also have "\<dots> = 2 powi 53" using ulp_pos[of x] by (simp add: u[symmetric])
    finally have "x / ulp x < 2 powi 53" .
    moreover have "(2::rat) powi 53 = of_int (2 ^ 53)" by simp
    ultimately have "x / ulp x + 1 / 2 < of_int (2 ^ 53) + 1" by linarith
    then have "of_int (sig x) * ulp x \<le> of_int (2 ^ 53) * ulp x" by (rule sig_le)
    moreover have "of_int (2 ^ 53) * ulp x = 2 powi (expOf x + 1)"
      using u by (simp add: mult.commute)
    moreover have "(2::rat) powi (expOf x + 1) \<le> 2 powi 1023"
      using g by (intro power_int_increasing) simp_all
    moreover have "(2::rat) powi 1023 < 2 powi 1024" by simp
    ultimately show ?thesis by simp
  qed
qed

lemma binary64_inf_iff:
  assumes "0 < x"
  shows "binary64 x = Infinity \<longleftrightarrow> 2 powi 1024 - 2 powi 970 \<le> x"
proof
  assume "binary64 x = Infinity"
  then have r: "2 powi 1024 \<le> of_int (sig x) * ulp x"
    using binary64_inf_iff_raw[OF assms] by simp
  show "2 powi 1024 - 2 powi 970 \<le> x"
  proof (rule ccontr)
    assume "\<not> 2 powi 1024 - 2 powi 970 \<le> x"
    then have "x < 2 powi 1024 - 2 powi 970" by simp
    from overflow_down[OF assms this] r show False by simp
  qed
next
  assume "2 powi 1024 - 2 powi 970 \<le> x"
  from overflow_up[OF assms this] show "binary64 x = Infinity"
    using binary64_inf_iff_raw[OF assms] by simp
qed

lemma binary64_error:
  assumes x: "0 < x" and lo: "2 powi (- 1022) \<le> x" and hi: "x < 2 powi 1023"
  shows "\<exists>d. binary64 x = Fin d \<and> 0 \<le> d \<and> \<bar>d - x\<bar> \<le> x * 2 powi (- 53)"
proof -
  have "x < 2 powi 1024 - 2 powi 970" using hi by simp
  from overflow_down[OF x this]
  have b: "binary64 x = Fin (of_int (sig x) * ulp x)" by (simp add: binary64_pos[OF x])
  have "(2::rat) powi (- 1022) \<le> x" by (rule lo)
  also have "x < 2 powi (ilog2 x + 1)" using x by (rule ilog2_bounds)
  finally have "- 1022 < ilog2 x + 1" by (rule two_powi_less_imp)
  then have e: "expOf x = ilog2 x" by (simp add: expOf_def)
  have h: "ulp x / 2 = 2 powi (expOf x) * 2 powi (- 53)"
    by (simp add: ulp_def power_int_add[symmetric] power_int_diff)
  have "2 powi (expOf x) * 2 powi (- 53) \<le> x * 2 powi (- 53)"
    using ilog2_bounds(1)[OF x] e by (intro mult_right_mono) simp_all
  then have u: "ulp x / 2 \<le> x * 2 powi (- 53)" by (simp only: h)
  from sig_scaled[of x] u have "\<bar>of_int (sig x) * ulp x - x\<bar> \<le> x * 2 powi (- 53)"
    by linarith
  moreover have "0 \<le> of_int (sig x) * ulp x"
    using sig_nonneg[OF x] ulp_pos[of x] by simp
  ultimately show ?thesis using b by blast
qed

lemma binary64_overflow:
  "0 < x \<Longrightarrow> binary64 x = Infinity \<longleftrightarrow> overflowThreshold \<le> x"
  unfolding overflowThreshold_def by (rule binary64_inf_iff)

lemma binary64_underflow:
  "0 < x \<Longrightarrow> binary64 x = Fin 0 \<longleftrightarrow> x \<le> underflowThreshold"
  unfolding underflowThreshold_def by (rule binary64_zero_iff)

lemma overflowThreshold_pos: "0 < overflowThreshold"
  by (simp add: overflowThreshold_def)

lemma binary64_0: "binary64 0 = Fin 0"
  by (simp add: binary64_def)

lemma roundHalfEven_of_int: "roundHalfEven (of_int k) = k"
  by (simp add: roundHalfEven_def)

lemma binary64_dyadic_pos:
  assumes n: "0 < n" "n < 2 ^ 53" and k: "k \<le> 1000"
  shows "binary64 (of_int n / 2 ^ k) = Fin (of_int n / 2 ^ k)"
proof -
  define x :: rat where "x = of_int n / 2 ^ k"
  have xp: "0 < x" using n by (simp add: x_def)
  have xk: "x * 2 powi (int k) = of_int n" by (simp add: x_def)
  have x_lo: "2 powi (- int k) \<le> x"
  proof -
    have "(1::rat) \<le> of_int n" using n by simp
    then have "1 / 2 ^ k \<le> (of_int n :: rat) / 2 ^ k" by (intro divide_right_mono) simp_all
    then show ?thesis by (simp add: x_def power_int_minus_divide)
  qed
  have x_hi: "x < 2 powi (53 - int k)"
  proof -
    have "(of_int n :: rat) < of_int (2 ^ 53)" using n by (simp only: of_int_less_iff)
    then have "(of_int n :: rat) < 2 powi 53" by simp
    then have "(of_int n :: rat) / 2 ^ k < 2 powi 53 / 2 ^ k"
      by (intro divide_strict_right_mono) simp_all
    then show ?thesis by (simp add: x_def power_int_diff)
  qed
  have "2 powi (- int k) \<le> x" by (rule x_lo)
  also have "x < 2 powi (ilog2 x + 1)" using xp by (rule ilog2_bounds)
  finally have e_lo: "- int k < ilog2 x + 1" by (rule two_powi_less_imp)
  have "2 powi (ilog2 x) \<le> x" using xp by (rule ilog2_bounds)
  also note x_hi
  finally have e_hi: "ilog2 x < 53 - int k" by (rule two_powi_less_imp)
  have e: "expOf x = ilog2 x" using e_lo k by (simp add: expOf_def)
  define j where "j = 52 - ilog2 x - int k"
  have j: "0 \<le> j" using e_hi by (simp add: j_def)
  have "x / ulp x = x * 2 powi (52 - ilog2 x)"
    by (simp add: ulp_def e power_int_diff field_simps)
  also have "\<dots> = x * (2 powi (int k) * 2 powi j)"
  proof -
    have "(2::rat) powi (int k + j) = 2 powi (int k) * 2 powi j"
      by (rule power_int_add) simp
    moreover have "int k + j = 52 - ilog2 x" by (simp add: j_def)
    ultimately show ?thesis by (simp only:)
  qed
  also have "\<dots> = of_int n * 2 powi j" using xk by (simp add: mult.assoc[symmetric])
  also have "\<dots> = of_int (n * 2 ^ nat j)" using j by (simp add: power_int_def)
  finally have q: "x / ulp x = of_int (n * 2 ^ nat j)" .
  have "sig x = n * 2 ^ nat j"
    unfolding sig_def q by (rule roundHalfEven_of_int)
  then have "of_int (sig x) = x / ulp x" by (simp only: q)
  then have s: "of_int (sig x) * ulp x = x"
    using ulp_pos[of x] by simp
  have "x < 2 powi (53 - int k)" by (rule x_hi)
  also have "(2::rat) powi (53 - int k) \<le> 2 powi 1023" by (intro power_int_increasing) simp_all
  also have "(2::rat) powi 1023 < 2 powi 1024" by simp
  finally have "x < 2 powi 1024" .
  then show ?thesis using s by (simp add: binary64_pos[OF xp] not_le flip: x_def)
qed

lemma fadd_0: "fadd (Fin 0) (Fin 0) = Fin 0"
  by (simp add: binary64_def)

lemma b64_vals:
  "binary64 50 = Fin 50" "binary64 30 = Fin 30" "binary64 1 = Fin 1"
  "binary64 (5 / 2) = Fin (5 / 2)"
  using binary64_dyadic_pos[of 50 0] binary64_dyadic_pos[of 30 0] binary64_dyadic_pos[of 1 0]
    binary64_dyadic_pos[of 5 1]
  by simp_all

lemma binary64_minus: "binary64 (- x) = (case binary64 x of Fin r \<Rightarrow> Fin (- r) | Infinity \<Rightarrow> NegInfinity
      | NegInfinity \<Rightarrow> Infinity | NotANumber \<Rightarrow> NotANumber)"
  by (cases "x = 0") (auto simp: binary64_def Let_def)

lemma b64_neg_vals:
  "binary64 (- 20) = Fin (- 20)" "binary64 (- 1) = Fin (- 1)"
  using binary64_dyadic_pos[of 20 0] binary64_dyadic_pos[of 1 0]
  by (simp_all add: binary64_minus)

lemma ilog2_unique:
  assumes "0 < x" "2 powi e \<le> x" "x < 2 powi (e + 1)"
  shows "ilog2 x = e"
proof -
  have "2 powi (ilog2 x) \<le> x" using assms(1) by (rule ilog2_bounds)
  also note assms(3)
  finally have a: "ilog2 x < e + 1" by (rule two_powi_less_imp)
  note assms(2)
  also have "x < 2 powi (ilog2 x + 1)" using assms(1) by (rule ilog2_bounds)
  finally have "e < ilog2 x + 1" by (rule two_powi_less_imp)
  with a show ?thesis by simp
qed

lemma roundHalfEven_near:
  assumes "of_int k - 1 / 2 < y" "y < of_int k + 1 / 2"
  shows "roundHalfEven y = k"
proof -
  from roundHalfEven_bounds[of y] assms
  have "(of_int k :: rat) - 1 < of_int (roundHalfEven y)"
    and "(of_int (roundHalfEven y) :: rat) < of_int k + 1" by linarith+
  then have "(of_int (k - 1) :: rat) < of_int (roundHalfEven y)"
    and "(of_int (roundHalfEven y) :: rat) < of_int (k + 1)" by simp_all
  then have "k - 1 < roundHalfEven y" "roundHalfEven y < k + 1" by (simp_all only: of_int_less_iff)
  then show ?thesis by simp
qed

lemma binary64_3_40: "binary64 (3 / 40) = Fin (5404319552844595 / 72057594037927936)"
proof -
  have "ilog2 (3 / 40) = - 4" by (rule ilog2_unique) simp_all
  then have e: "expOf (3 / 40) = - 4" by (simp add: expOf_def)
  have u: "ulp (3 / 40) = 1 / 72057594037927936" by (simp add: ulp_def e)
  have s: "sig (3 / 40) = 5404319552844595"
    unfolding sig_def by (rule roundHalfEven_near) (simp_all add: u)
  have p: "(0::rat) < 3 / 40" by simp
  show ?thesis by (simp add: binary64_pos[OF p] s u)
qed

lemma dec_close:
  assumes "1 / 2 ^ 10 \<le> x" "x \<le> 2 ^ 10"
  shows "\<bar>dec x - x\<bar> \<le> x / 2 ^ 53"
proof -
  have "(0::rat) < 1 / 2 ^ 10" by simp
  then have p: "0 < x" using assms(1) by (rule less_le_trans)
  have "(2::rat) powi (- 1022) \<le> 2 powi (- 10)" by (intro power_int_increasing) simp_all
  also have "(2::rat) powi (- 10) = 1 / 2 ^ 10" by (simp add: power_int_minus_divide)
  finally have lo: "2 powi (- 1022) \<le> x" using assms(1) by (rule order_trans)
  have "x \<le> 2 ^ 10" by (rule assms(2))
  also have "(2::rat) ^ 10 = 2 powi 10" by simp
  also have "(2::rat) powi 10 < 2 powi 1023" by (intro power_int_strict_increasing) simp_all
  finally have hi: "x < 2 powi 1023" .
  from binary64_error[OF p lo hi] obtain d where "binary64 x = Fin d"
    "\<bar>d - x\<bar> \<le> x * 2 powi (- 53)" by blast
  then show ?thesis by (simp add: dec_def power_int_minus_divide)
qed

subsection \<open>Sums, partitions and the shape of the non-empty result\<close>

lemma fadd_nonneg: "nonnegNum s \<Longrightarrow> 0 < b \<Longrightarrow> nonnegNum (fadd s (Fin b))"
proof (cases s)
  case (Fin a)
  assume "nonnegNum s" "0 < b"
  then have "0 < a + b" using Fin by simp
  from binary64_sign_pos[OF this] show ?thesis using Fin by auto
qed simp_all

lemma fadd_nonpos: "nonposNum s \<Longrightarrow> b < 0 \<Longrightarrow> nonposNum (fadd s (Fin b))"
proof (cases s)
  case (Fin a)
  assume "nonposNum s" "b < 0"
  then have "a + b < 0" using Fin by simp
  from binary64_sign_neg[OF this] show ?thesis using Fin by auto
qed simp_all

lemma foldl_nonneg:
  "\<forall>p \<in> set xs. 0 < pnl p \<Longrightarrow> nonnegNum s
     \<Longrightarrow> nonnegNum (foldl (\<lambda>s p. fadd s (Fin (pnl p))) s xs)"
  by (induction xs arbitrary: s) (simp_all add: fadd_nonneg)

lemma foldl_nonpos:
  "\<forall>p \<in> set xs. pnl p < 0 \<Longrightarrow> nonposNum s
     \<Longrightarrow> nonposNum (foldl (\<lambda>s p. fadd s (Fin (pnl p))) s xs)"
  by (induction xs arbitrary: s) (simp_all add: fadd_nonpos)

lemma sumPnl_wins_nonneg: "nonnegNum (sumPnl (filter (\<lambda>p. pnl p > 0) xs))"
  unfolding sumPnl_def by (rule foldl_nonneg) simp_all

lemma sumPnl_losses_nonneg: "nonnegNum (fabs (sumPnl (filter (\<lambda>p. pnl p < 0) xs)))"
proof -
  have "nonposNum (sumPnl (filter (\<lambda>p. pnl p < 0) xs))"
    unfolding sumPnl_def by (rule foldl_nonpos) simp_all
  then show ?thesis by (cases "sumPnl (filter (\<lambda>p. pnl p < 0) xs)") simp_all
qed

lemma profitFactor_cases:
  assumes "nonnegNum W" "nonnegNum L"
  shows "((if fpos L then fdiv W L else if fpos W then Infinity else Fin 0) = Infinity
          \<longleftrightarrow> (L = Fin 0 \<and> fpos W) \<or> quotientOverflows W L)
       \<and> ((if fpos L then fdiv W L else if fpos W then Infinity else Fin 0) = Fin 0
          \<longleftrightarrow> W = Fin 0 \<or> quotientUnderflows W L)"
proof (cases W)
  case W: (Fin w)
  then have w: "0 \<le> w" using assms(1) by simp
  show ?thesis
  proof (cases L)
    case L: (Fin l)
    then have l: "0 \<le> l" using assms(2) by simp
    show ?thesis
    proof (cases "0 < l")
      case False
      with l have "l = 0" by simp
      then show ?thesis using W L w by auto
    next
      case lp: True
      show ?thesis
      proof (cases "0 < w")
        case False
        with w have "w = 0" by simp
        then show ?thesis using W L lp overflowThreshold_pos by (simp add: binary64_0 not_le)
      next
        case True
        then have q: "0 < w / l" using lp by simp
        show ?thesis
          using W L lp True binary64_overflow[OF q] binary64_underflow[OF q] by simp
      qed
    qed
  next
    case Infinity
    then show ?thesis using W w by auto
  qed (use assms(2) in simp_all)
next
  case W: Infinity
  show ?thesis
  proof (cases L)
    case (Fin l)
    then have "0 \<le> l" using assms(2) by simp
    then show ?thesis using W Fin by auto
  next
    case Infinity
    then show ?thesis using W by simp
  qed (use assms(2) in simp_all)
qed (use assms(1) in simp_all)

lemma partition_lengths:
  "length (filter (\<lambda>p. pnl p > 0) xs) + length (filter (\<lambda>p. pnl p < 0) xs)
     + length (filter (\<lambda>p. pnl p = 0) xs) = length xs"
  by (induction xs) auto

lemma stats_nonempty:
  "cps \<noteq> [] \<Longrightarrow> calculateWinLossStats (Some cps) =
     \<lparr>totalResolved = length cps,
      wins = length (filter (\<lambda>p. pnl p > 0) cps),
      losses = length (filter (\<lambda>p. pnl p < 0) cps),
      breakeven = Some (length (filter (\<lambda>p. pnl p = 0) cps)),
      winRate = rate (length (filter (\<lambda>p. pnl p > 0) cps)) (length cps),
      totalRealizedPnL = sumPnl cps,
      totalWinAmount = Some (sumPnl (filter (\<lambda>p. pnl p > 0) cps)),
      totalLossAmount = Some (fabs (sumPnl (filter (\<lambda>p. pnl p < 0) cps))),
      avgWinAmount = (if length (filter (\<lambda>p. pnl p > 0) cps) > 0
                      then fdiv (sumPnl (filter (\<lambda>p. pnl p > 0) cps))
                             (Fin (of_nat (length (filter (\<lambda>p. pnl p > 0) cps))))
                      else Fin 0),
      avgLossAmount = (if length (filter (\<lambda>p. pnl p < 0) cps) > 0
                       then fdiv (fabs (sumPnl (filter (\<lambda>p. pnl p < 0) cps)))
                              (Fin (of_nat (length (filter (\<lambda>p. pnl p < 0) cps))))
                       else Fin 0),
      biggestWin = reduceBest (\<lambda>a b. a > b) (filter (\<lambda>p. pnl p > 0) cps),
      biggestLoss = reduceBest (\<lambda>a b. a < b) (filter (\<lambda>p. pnl p < 0) cps),
      profitFactor = (if fpos (fabs (sumPnl (filter (\<lambda>p. pnl p < 0) cps)))
                      then fdiv (sumPnl (filter (\<lambda>p. pnl p > 0) cps))
                             (fabs (sumPnl (filter (\<lambda>p. pnl p < 0) cps)))
                      else if fpos (sumPnl (filter (\<lambda>p. pnl p > 0) cps)) then Infinity
                      else Fin 0),
      expectancy = Some (if length cps > 0 then fdiv (sumPnl cps) (Fin (of_nat (length cps)))
                         else Fin 0),
      winLossByCategory = calculateWinLossByCategory cps,
      winLossByPriceRange = calculateWinLossByPriceRange cps,
      closedPositions = Some cps\<rparr>"
  by (simp add: calculateWinLossStats_def Let_def rate_def)

lemma rate_bounds: "w \<le> c \<Longrightarrow> 0 \<le> rate w c \<and> rate w c \<le> 100"
  by (simp add: rate_def divide_le_eq)

lemma rate_zero_iff: "rate w c = 0 \<longleftrightarrow> w = 0 \<or> c = 0"
  by (simp add: rate_def)

subsection \<open>The price-range pass keeps its five keys and counts every position once\<close>

lemma rangeOf_in_labels: "rangeOf a \<in> set rangeLabels"
  by (simp add: rangeOf_def rangeLabels_def)

lemma keys_map_entry: "map fst (AList.map_entry k f al) = map fst al"
  by (induction al) auto

lemma count_tally: "b_count (tally p b) = b_count b + 1"
  by (simp add: tally_def Let_def)

lemma totalCount_map_entry:
  "k \<in> set (map fst al) \<Longrightarrow> totalCount (AList.map_entry k (tally p) al) = totalCount al + 1"
  by (induction al) (auto simp: totalCount_def count_tally)

lemma rangeStep_keys: "map fst (rangeStep rs p) = map fst rs"
  by (simp add: rangeStep_def keys_map_entry)

lemma foldl_rangeStep_keys: "map fst (foldl rangeStep rs cps) = map fst rs"
  by (induction cps arbitrary: rs) (simp_all add: rangeStep_keys)

lemma foldl_rangeStep_count:
  "map fst rs = rangeLabels \<Longrightarrow> totalCount (foldl rangeStep rs cps) = totalCount rs + length cps"
proof (induction cps arbitrary: rs)
  case Nil
  then show ?case by simp
next
  case (Cons p cps)
  have k: "map fst (rangeStep rs p) = rangeLabels"
    using Cons.prems by (simp add: rangeStep_keys)
  have "totalCount (rangeStep rs p) = totalCount rs + 1"
    unfolding rangeStep_def
    by (rule totalCount_map_entry) (simp add: Cons.prems rangeOf_in_labels)
  with Cons.IH[OF k] show ?case by simp
qed

lemma totalCount_setWinRate:
  "totalCount (map (\<lambda>(r, d). (r, setWinRate d)) al) = totalCount al"
  by (induction al) (auto simp: totalCount_def setWinRate_def)

lemma ranges0_keys: "map fst ranges0 = rangeLabels"
  by (simp add: ranges0_def rangeLabels_def)

lemma keys_setWinRate: "map fst (map (\<lambda>(r, d). (r, setWinRate d)) al) = map fst al"
  by (induction al) auto

lemma distinct_rangeLabels: "distinct rangeLabels"
  by (simp add: rangeLabels_def Longshots_def Underdogs_def Tossups_def Favorites_def
      HeavyFavorites_def)

lemma thresholds_increase:
  "dec (20 / 100) < dec (40 / 100)" "dec (40 / 100) < dec (60 / 100)"
  "dec (60 / 100) < dec (80 / 100)"
proof -
  have a: "\<bar>dec (20 / 100) - 20 / 100\<bar> \<le> 1 / 100" "\<bar>dec (40 / 100) - 40 / 100\<bar> \<le> 1 / 100"
    "\<bar>dec (60 / 100) - 60 / 100\<bar> \<le> 1 / 100" "\<bar>dec (80 / 100) - 80 / 100\<bar> \<le> 1 / 100"
    by (rule order_trans[OF dec_close]; simp)+
  show "dec (20 / 100) < dec (40 / 100)" "dec (40 / 100) < dec (60 / 100)"
    "dec (60 / 100) < dec (80 / 100)"
    using a by linarith+
qed

lemma rangeOf_iff:
  "rangeOf a = Longshots \<longleftrightarrow> a \<le> dec (20 / 100)"
  "rangeOf a = Underdogs \<longleftrightarrow> dec (20 / 100) < a \<and> a \<le> dec (40 / 100)"
  "rangeOf a = Tossups \<longleftrightarrow> dec (40 / 100) < a \<and> a \<le> dec (60 / 100)"
  "rangeOf a = Favorites \<longleftrightarrow> dec (60 / 100) < a \<and> a \<le> dec (80 / 100)"
  "rangeOf a = HeavyFavorites \<longleftrightarrow> dec (80 / 100) < a"
  using distinct_rangeLabels thresholds_increase by (auto simp: rangeOf_def rangeLabels_def)

lemma labelCount_map_entry:
  "l \<in> fst ` set al \<Longrightarrow>
     labelCount (AList.map_entry k (tally p) al) l = labelCount al l + (if k = l then 1 else 0)"
  by (auto simp: labelCount_def map_of_map_entry count_tally weak_map_of_SomeI
      split: option.splits dest: map_of_eq_None_iff[THEN iffD1])

lemma foldl_rangeStep_label:
  "map fst rs = rangeLabels \<Longrightarrow> l \<in> set rangeLabels \<Longrightarrow>
     labelCount (foldl rangeStep rs cps) l
       = labelCount rs l + length (filter (\<lambda>p. rangeOf (or0 (avgPrice p)) = l) cps)"
proof (induction cps arbitrary: rs)
  case Nil
  then show ?case by simp
next
  case (Cons p cps)
  have k: "map fst (rangeStep rs p) = rangeLabels" using Cons.prems by (simp add: rangeStep_keys)
  have m: "l \<in> fst ` set rs" using Cons.prems by (metis set_map)
  have "labelCount (rangeStep rs p) l
          = labelCount rs l + (if rangeOf (or0 (avgPrice p)) = l then 1 else 0)"
    unfolding rangeStep_def using m by (rule labelCount_map_entry)
  with Cons.IH[OF k Cons.prems(2)] show ?case by simp
qed

lemma labelCount_setWinRate:
  "labelCount (map (\<lambda>(r, d). (r, setWinRate d)) al) l = labelCount al l"
  by (induction al) (auto simp: labelCount_def setWinRate_def)

lemma counts_by_label:
  "distinct (map fst al) \<Longrightarrow> map (\<lambda>(r, b). b_count b) al = map (labelCount al) (map fst al)"
proof (induction al)
  case Nil
  then show ?case by simp
next
  case (Cons e al)
  obtain k c where e: "e = (k, c)" by (cases e)
  have d: "k \<notin> set (map fst al)" "distinct (map fst al)" using Cons.prems e by simp_all
  have "map (labelCount (e # al)) (map fst al) = map (labelCount al) (map fst al)"
    using d(1) e by (intro map_cong) (auto simp: labelCount_def)
  then show ?case using Cons.IH[OF d(2)] e by (simp add: labelCount_def)
qed

lemma price_range_keys: "map fst (calculateWinLossByPriceRange cps) = rangeLabels"
proof -
  have "map fst (calculateWinLossByPriceRange cps) = map fst (foldl rangeStep ranges0 cps)"
    unfolding calculateWinLossByPriceRange_def by (rule keys_setWinRate)
  then show ?thesis by (simp add: foldl_rangeStep_keys ranges0_keys)
qed

lemma price_range_label:
  assumes "l \<in> set rangeLabels"
  shows "labelCount (calculateWinLossByPriceRange cps) l
           = length (filter (\<lambda>p. rangeOf (or0 (avgPrice p)) = l) cps)"
proof -
  have z: "labelCount ranges0 l = 0"
    by (auto simp: labelCount_def ranges0_def zero_bucket_def split: option.splits if_splits)
  show ?thesis
    unfolding calculateWinLossByPriceRange_def labelCount_setWinRate
    using foldl_rangeStep_label[OF ranges0_keys assms, of cps] z by simp
qed

lemma price_range_counts:
  "map (\<lambda>(r, b). b_count b) (calculateWinLossByPriceRange cps)
     = [length (filter (\<lambda>p. or0 (avgPrice p) \<le> dec (20 / 100)) cps),
        length (filter (\<lambda>p. dec (20 / 100) < or0 (avgPrice p) \<and> or0 (avgPrice p) \<le> dec (40 / 100)) cps),
        length (filter (\<lambda>p. dec (40 / 100) < or0 (avgPrice p) \<and> or0 (avgPrice p) \<le> dec (60 / 100)) cps),
        length (filter (\<lambda>p. dec (60 / 100) < or0 (avgPrice p) \<and> or0 (avgPrice p) \<le> dec (80 / 100)) cps),
        length (filter (\<lambda>p. dec (80 / 100) < or0 (avgPrice p)) cps)]"
proof -
  have d: "distinct (map fst (calculateWinLossByPriceRange cps))"
    by (simp add: price_range_keys distinct_rangeLabels)
  have "map (\<lambda>(r, b). b_count b) (calculateWinLossByPriceRange cps)
          = map (labelCount (calculateWinLossByPriceRange cps)) rangeLabels"
    using counts_by_label[OF d] by (simp only: price_range_keys)
  also have "\<dots> = map (\<lambda>l. length (filter (\<lambda>p. rangeOf (or0 (avgPrice p)) = l) cps)) rangeLabels"
    by (intro map_cong refl price_range_label)
  finally show ?thesis by (simp add: rangeLabels_def rangeOf_iff)
qed

subsection \<open>The category pass keeps every bucket consistent\<close>

lemma tally_ok: "bucket_ok b \<Longrightarrow> bucket_ok (tally p b)"
  by (simp add: tally_def Let_def bucket_ok_def)

lemma zero_bucket_ok: "bucket_ok zero_bucket"
  by (simp add: bucket_ok_def zero_bucket_def)

lemma update_ok:
  "\<forall>(k, b) \<in> set al. bucket_ok b \<Longrightarrow> bucket_ok v \<Longrightarrow> \<forall>(k, b) \<in> set (AList.update c v al). bucket_ok b"
  by (induction al) auto

lemma map_entry_ok:
  "\<forall>(k, b) \<in> set al. bucket_ok b \<Longrightarrow> \<forall>(k, b) \<in> set (AList.map_entry c (tally p) al). bucket_ok b"
  by (induction al) (auto simp: tally_ok)

lemma categoryStep_ok:
  assumes "\<forall>(k, b) \<in> set cs. bucket_ok b"
  shows "\<forall>(k, b) \<in> set (categoryStep cs p). bucket_ok b"
proof -
  let ?c = "classify keywordTable (toLowerCase (orEmpty (title p)))"
  let ?cs1 = "case map_of cs ?c of None \<Rightarrow> AList.update ?c zero_bucket cs | Some d \<Rightarrow> cs"
  have "\<forall>(k, b) \<in> set ?cs1. bucket_ok b"
  proof (cases "map_of cs ?c")
    case None
    then show ?thesis using update_ok[OF assms zero_bucket_ok, of ?c] by simp
  next
    case (Some d)
    then show ?thesis using assms by simp
  qed
  then have "\<forall>(k, b) \<in> set (AList.map_entry ?c (tally p) ?cs1). bucket_ok b"
    by (rule map_entry_ok)
  then show ?thesis by (simp add: categoryStep_def Let_def)
qed

lemma foldl_categoryStep_ok:
  "\<forall>(k, b) \<in> set cs. bucket_ok b \<Longrightarrow> \<forall>(k, b) \<in> set (foldl categoryStep cs cps). bucket_ok b"
proof (induction cps arbitrary: cs)
  case Nil
  then show ?case by simp
next
  case (Cons p cps)
  have "\<forall>(k, b) \<in> set (categoryStep cs p). bucket_ok b"
    using Cons.prems by (rule categoryStep_ok)
  then have "\<forall>(k, b) \<in> set (foldl categoryStep (categoryStep cs p) cps). bucket_ok b"
    by (rule Cons.IH)
  then show ?case by simp
qed

subsection \<open>The reducer returns the first extremal element\<close>

lemma foldl_pick_first_best:
  assumes asym: "\<forall>a b. better a b \<longrightarrow> \<not> better b a"
    and trans: "\<forall>a b c. better a b \<longrightarrow> \<not> better c b \<longrightarrow> better a c"
  shows "first_best better (x0 # xs) (foldl (pick better) x0 xs)"
proof (induction xs rule: rev_induct)
  case Nil
  have irrefl: "\<forall>a. \<not> better a a" using asym by blast
  have "[x0] = [] @ x0 # [] \<and> (\<forall>q \<in> set []. better (pnl x0) (pnl q))
          \<and> (\<forall>q \<in> set [x0]. \<not> better (pnl q) (pnl x0))"
    using irrefl by simp
  then have "first_best better [x0] x0" unfolding first_best_def by (intro exI)
  then show ?case by simp
next
  case (snoc x xs)
  have irrefl: "\<forall>a. \<not> better a a" using asym by blast
  let ?r = "foldl (pick better) x0 xs"
  from snoc obtain pre post where d: "x0 # xs = pre @ ?r # post"
    and lt: "\<forall>q \<in> set pre. better (pnl ?r) (pnl q)"
    and mx: "\<forall>q \<in> set (x0 # xs). \<not> better (pnl q) (pnl ?r)"
    unfolding first_best_def by blast
  show ?case
  proof (cases "better (pnl x) (pnl ?r)")
    case True
    then have r: "foldl (pick better) x0 (xs @ [x]) = x" by (simp add: pick_def)
    have a: "\<forall>q \<in> set (x0 # xs). better (pnl x) (pnl q)"
    proof
      fix q assume "q \<in> set (x0 # xs)"
      with mx have "\<not> better (pnl q) (pnl ?r)" by blast
      with True trans show "better (pnl x) (pnl q)" by blast
    qed
    have b: "\<forall>q \<in> set (x0 # xs @ [x]). \<not> better (pnl q) (pnl x)"
    proof
      fix q assume q: "q \<in> set (x0 # xs @ [x])"
      then have "q = x \<or> q \<in> set (x0 # xs)" by auto
      then show "\<not> better (pnl q) (pnl x)"
      proof
        assume "q = x"
        then show ?thesis using irrefl by simp
      next
        assume "q \<in> set (x0 # xs)"
        with a have "better (pnl x) (pnl q)" by blast
        then show ?thesis using asym by simp
      qed
    qed
    have c: "x0 # xs @ [x] = (x0 # xs) @ x # []" by simp
    have "first_best better (x0 # xs @ [x]) x"
      unfolding first_best_def using a b c by (intro exI conjI)
    then show ?thesis unfolding r by simp
  next
    case False
    then have r: "foldl (pick better) x0 (xs @ [x]) = ?r" by (simp add: pick_def)
    have b: "\<forall>q \<in> set (x0 # xs @ [x]). \<not> better (pnl q) (pnl ?r)" using mx False by auto
    have c: "x0 # xs @ [x] = pre @ ?r # (post @ [x])" using d by simp
    have "first_best better (x0 # xs @ [x]) ?r"
      unfolding first_best_def using lt b c by (intro exI conjI)
    then show ?thesis unfolding r by simp
  qed
qed

lemma find_first:
  "\<forall>q \<in> set pre. \<not> P q \<Longrightarrow> P r \<Longrightarrow> find P (pre @ r # post) = Some r"
  by (induction pre) auto

lemma reduceBest_find:
  assumes asym: "\<forall>a b. better a b \<longrightarrow> \<not> better b a"
    and trans: "\<forall>a b c. better a b \<longrightarrow> \<not> better c b \<longrightarrow> better a c"
  shows "reduceBest better xs = find (\<lambda>p. \<forall>q \<in> set xs. \<not> better (pnl q) (pnl p)) xs"
proof (cases xs)
  case Nil
  then show ?thesis by (simp add: reduceBest_def)
next
  case (Cons x0 rest)
  have irrefl: "\<forall>a. \<not> better a a" using asym by blast
  let ?r = "foldl (pick better) x0 rest"
  have step: "foldl (pick better) x0 xs = ?r"
    using Cons irrefl by (simp add: pick_def)
  have rb: "reduceBest better xs = Some ?r"
    using step Cons unfolding reduceBest_def pick_def by simp
  from foldl_pick_first_best[OF asym trans, of x0 rest]
  obtain pre post where d: "xs = pre @ ?r # post"
    and lt: "\<forall>q \<in> set pre. better (pnl ?r) (pnl q)"
    and mx: "\<forall>q \<in> set xs. \<not> better (pnl q) (pnl ?r)"
    unfolding first_best_def Cons by blast
  have rin: "?r \<in> set xs" by (subst d) simp
  have np: "\<forall>q \<in> set pre. \<not> (\<forall>q' \<in> set xs. \<not> better (pnl q') (pnl q))"
    using lt rin by blast
  have "find (\<lambda>p. \<forall>q \<in> set xs. \<not> better (pnl q) (pnl p)) (pre @ ?r # post) = Some ?r"
    using np mx by (rule find_first)
  then show ?thesis using d rb by simp
qed

subsection \<open>Dates of valid timestamps\<close>

lemma newDate_valid: "validTime t \<Longrightarrow> newDate (timestamp t * 1000) = Some (timestamp t * 1000)"
  by (simp add: validTime_def newDate_def abs_mult)

lemma newDate_invalid: "\<not> validTime t \<Longrightarrow> newDate (timestamp t * 1000) = None"
  by (simp add: validTime_def newDate_def abs_mult)

subsection \<open>Hours\<close>

lemma hourStep_length: "length (hourStep hours t) = length hours"
  by (simp add: hourStep_def split: option.split)

lemma hourStep_sum:
  assumes "validTime t" "length hours = 24"
  shows "sum_list (hourStep hours t) = sum_list hours + 1"
proof -
  let ?h = "nat ((timestamp t * 1000 div 3600000) mod 24)"
  have h: "?h < length hours" using assms(2) by simp
  have "hourStep hours t = hours[?h := hours ! ?h + 1]"
    using assms(1) by (simp add: hourStep_def newDate_valid getUTCHours_def)
  moreover have "sum_list (hours[?h := hours ! ?h + 1]) = sum_list hours + 1"
    using h by (simp add: sum_list_update)
  ultimately show ?thesis by simp
qed

lemma foldl_hourStep_length: "length (foldl hourStep hours ts) = length hours"
  by (induction ts arbitrary: hours) (simp_all add: hourStep_length)

lemma foldl_hourStep_sum:
  "\<forall>t \<in> set ts. validTime t \<Longrightarrow> length hours = 24
     \<Longrightarrow> sum_list (foldl hourStep hours ts) = sum_list hours + length ts"
proof (induction ts arbitrary: hours)
  case Nil
  then show ?case by simp
next
  case (Cons t ts)
  have "sum_list (foldl hourStep (hourStep hours t) ts) = sum_list (hourStep hours t) + length ts"
    using Cons.prems by (intro Cons.IH) (simp_all add: hourStep_length)
  then show ?case using Cons.prems by (simp add: hourStep_sum)
qed

lemma hours_conserved:
  "\<forall>t \<in> set ts. validTime t \<Longrightarrow>
     length (getHourDistribution ts) = 24 \<and> sum_list (getHourDistribution ts) = length ts"
  by (simp add: getHourDistribution_def foldl_hourStep_length foldl_hourStep_sum)

subsection \<open>Days\<close>

lemma map_of_keys:
  "distinct (map fst al) \<Longrightarrow> map (\<lambda>k. f (map_of al k)) (map fst al) = map (\<lambda>(k, c). f (Some c)) al"
proof (induction al)
  case Nil
  then show ?case by simp
next
  case (Cons e al)
  obtain k c where e: "e = (k, c)" by (cases e)
  have "k \<notin> set (map fst al)" "distinct (map fst al)" using Cons.prems e by simp_all
  then have "map (\<lambda>k'. f (map_of (e # al) k')) (map fst al) = map (\<lambda>k'. f (map_of al k')) (map fst al)"
    using e by (intro map_cong) auto
  then show ?case using Cons.IH[OF \<open>distinct (map fst al)\<close>] e by simp
qed

lemma distinct_dayNames: "distinct dayNames"
  by (simp add: dayNames_def)

lemma weekdayTotal_entries: "map fst days = dayNames \<Longrightarrow> weekdayTotal days = entryTotal days"
  unfolding weekdayTotal_def entryTotal_def
  using map_of_keys[of days countOf] distinct_dayNames by simp

lemma entryTotal_increment:
  "k \<in> set (map fst al) \<Longrightarrow> NaN \<notin> snd ` set al
     \<Longrightarrow> entryTotal (AList.map_entry k increment al) = entryTotal al + 1
         \<and> NaN \<notin> snd ` set (AList.map_entry k increment al)"
proof (induction al)
  case Nil
  then show ?case by simp
next
  case (Cons e al)
  obtain k' c where e: "e = (k', c)" by (cases e)
  show ?case
  proof (cases "k' = k")
    case True
    then obtain n where "c = Count n" using Cons.prems e by (cases c) auto
    then show ?thesis using True e Cons.prems by (auto simp: entryTotal_def)
  next
    case False
    then have "k \<in> set (map fst al)" "NaN \<notin> snd ` set al" using Cons.prems e by auto
    from Cons.IH[OF this] show ?thesis using False e Cons.prems by (auto simp: entryTotal_def)
  qed
qed

lemma dayName_in: "dayNames ! nat ((x + 4) mod 7) \<in> set dayNames"
  by (rule nth_mem) (simp add: dayNames_def)

lemma dayStep_valid:
  assumes "validTime t" "map fst days = dayNames" "NaN \<notin> snd ` set days"
  shows "map fst (dayStep days t) = dayNames \<and> NaN \<notin> snd ` set (dayStep days t)
         \<and> entryTotal (dayStep days t) = entryTotal days + 1"
proof -
  let ?k = "dayNames ! nat ((timestamp t * 1000 div 86400000 + 4) mod 7)"
  have s: "dayStep days t = AList.map_entry ?k increment days"
    using assms(1) by (simp add: dayStep_def newDate_valid getUTCDay_def)
  have "?k \<in> set (map fst days)" using assms(2) dayName_in by simp
  from entryTotal_increment[OF this assms(3)] show ?thesis
    using assms(2) by (simp add: s keys_map_entry)
qed

lemma foldl_dayStep_valid:
  "\<forall>t \<in> set ts. validTime t \<Longrightarrow> map fst days = dayNames \<Longrightarrow> NaN \<notin> snd ` set days
     \<Longrightarrow> map fst (foldl dayStep days ts) = dayNames
         \<and> entryTotal (foldl dayStep days ts) = entryTotal days + length ts"
proof (induction ts arbitrary: days)
  case Nil
  then show ?case by simp
next
  case (Cons t ts)
  have v: "validTime t" using Cons.prems(1) by simp
  note st = dayStep_valid[OF v Cons.prems(2) Cons.prems(3)]
  have "map fst (foldl dayStep (dayStep days t) ts) = dayNames
         \<and> entryTotal (foldl dayStep (dayStep days t) ts) = entryTotal (dayStep days t) + length ts"
    using Cons.prems(1) st by (intro Cons.IH) simp_all
  then show ?case using st by simp
qed

lemma days_conserved:
  assumes "\<forall>t \<in> set ts. validTime t"
  shows "map fst (getDayDistribution ts) = dayNames \<and> weekdayTotal (getDayDistribution ts) = length ts"
proof -
  have k: "map fst days0 = dayNames" by (simp add: days0_def comp_def)
  have n: "NaN \<notin> snd ` set days0" by (auto simp: days0_def)
  have z: "entryTotal days0 = 0" by (simp add: days0_def entryTotal_def comp_def)
  from foldl_dayStep_valid[OF assms k n] z show ?thesis
    by (simp add: getDayDistribution_def weekdayTotal_entries)
qed

subsection \<open>calculateStats returns exactly on valid timestamps\<close>

lemma tradeDates_Inr: "(\<exists>ds. tradeDates ts = Inr ds) \<longleftrightarrow> (\<forall>t \<in> set ts. validTime t)"
proof (induction ts)
  case Nil
  then show ?case by simp
next
  case (Cons t ts)
  show ?case
  proof (cases "validTime t")
    case True
    then show ?thesis using Cons.IH
      by (auto simp: newDate_valid isoDate_def split: sum.splits)
  next
    case False
    then show ?thesis by (auto simp: newDate_invalid isoDate_def)
  qed
qed

lemma calculateStats_Inr:
  assumes "calculateStats data = Inr s"
  shows "(\<forall>t \<in> set (tradesOf data). validTime t)
     \<and> totalTrades s = length (tradesOf data)
     \<and> hourDistribution s = getHourDistribution (tradesOf data)
     \<and> dayDistribution s = getDayDistribution (tradesOf data)
     \<and> buys s = length (filter (\<lambda>t. side t = ''BUY'') (tradesOf data))
     \<and> sells s = length (filter (\<lambda>t. side t = ''SELL'') (tradesOf data))
     \<and> buySellRatio s = (if sells s > 0 then toFixedNum 2 (fdiv (Fin (of_nat (buys s))) (Fin (of_nat (sells s))))
                          else if buys s > 0 then infinitySign else ''-'')"
proof -
  from assms obtain ds where ds: "tradeDates (tradesOf data) = Inr ds"
    by (auto simp: calculateStats_def Let_def tradesOf_def split: sum.splits)
  then have "\<forall>t \<in> set (tradesOf data). validTime t" using tradeDates_Inr by blast
  moreover have "totalTrades s = length (tradesOf data)
     \<and> hourDistribution s = getHourDistribution (tradesOf data)
     \<and> dayDistribution s = getDayDistribution (tradesOf data)
     \<and> buys s = length (filter (\<lambda>t. side t = ''BUY'') (tradesOf data))
     \<and> sells s = length (filter (\<lambda>t. side t = ''SELL'') (tradesOf data))
     \<and> buySellRatio s = (if sells s > 0 then toFixedNum 2 (fdiv (Fin (of_nat (buys s))) (Fin (of_nat (sells s))))
                          else if buys s > 0 then infinitySign else ''-'')"
    using assms ds unfolding calculateStats_def Let_def tradesOf_def[symmetric]
    by (auto split: sum.splits)
  ultimately show ?thesis by blast
qed

lemma calculateStats_returns:
  "(\<exists>s. calculateStats data = Inr s) \<longleftrightarrow> (\<forall>t \<in> set (tradesOf data). validTime t)"
proof
  assume "\<exists>s. calculateStats data = Inr s"
  then show "\<forall>t \<in> set (tradesOf data). validTime t" using calculateStats_Inr by blast
next
  assume "\<forall>t \<in> set (tradesOf data). validTime t"
  then obtain ds where "tradeDates (tradesOf data) = Inr ds" using tradeDates_Inr by blast
  then show "\<exists>s. calculateStats data = Inr s"
    unfolding calculateStats_def Let_def tradesOf_def[symmetric] by simp
qed

subsection \<open>Two-decimal formatting\<close>

lemma digitsOf_small: "n < 10 \<Longrightarrow> digitsOf n = [digit n]"
  by (simp add: digitsOf.simps[of n] digit_def)

lemma digitsOf_large: "10 \<le> n \<Longrightarrow> digitsOf n = digitsOf (n div 10) @ [digit (n mod 10)]"
  by (simp add: digitsOf.simps[of n] digit_def)

lemma digitsOf_nonempty: "digitsOf n \<noteq> []"
  by (cases "n < 10") (simp_all add: digitsOf_small digitsOf_large)

lemma digit_0: "digit 0 = CHR ''0''"
  by (simp add: digit_def)

lemma pad_split:
  "(let m = digitsOf n;
        m1 = (if (2::nat) \<noteq> 0 \<and> length m \<le> 2 then replicate (2 + 1 - length m) (CHR ''0'') @ m else m);
        k = length m1
    in take (k - 2) m1 @ ''.'' @ drop (k - 2) m1) = twoDecimals n"
proof -
  consider "n < 10" | "10 \<le> n" "n < 100" | "100 \<le> n" by linarith
  then show ?thesis
  proof cases
    case 1
    then show ?thesis
      by (simp add: digitsOf_small twoDecimals_def digit_0 numeral_2_eq_2)
  next
    case 2
    then have a: "n div 10 < 10" by simp
    have "digitsOf n = [digit (n div 10), digit (n mod 10)]"
      using 2 a by (simp add: digitsOf_large digitsOf_small)
    moreover have "n div 100 = 0" "n div 10 mod 10 = n div 10" using 2 a by simp_all
    ultimately show ?thesis
      by (simp add: digitsOf_small twoDecimals_def digit_0)
  next
    case 3
    then have a: "10 \<le> n div 10" by simp
    have b: "n div 10 div 10 = n div 100" by (simp add: div_mult2_eq)
    have d: "digitsOf n = digitsOf (n div 100) @ [digit (n div 10 mod 10), digit (n mod 10)]"
      using 3 a b by (simp add: digitsOf_large[of n] digitsOf_large[of "n div 10"])
    have l: "length (digitsOf (n div 100)) \<ge> 1"
      using digitsOf_nonempty[of "n div 100"] by (cases "digitsOf (n div 100)") simp_all
    show ?thesis using l digitsOf_nonempty[of "n div 100"] by (simp add: d twoDecimals_def Let_def)
  qed
qed

lemma toFixed2_string:
  "0 \<le> x \<Longrightarrow> toFixed 2 x = twoDecimals (nat \<lfloor>x * 100 + 1 / 2\<rfloor>)"
  using pad_split[of "nat \<lfloor>x * 100 + 1 / 2\<rfloor>"]
  by (simp add: toFixed_def Let_def abs_of_nonneg)

lemma hundredths_of_double:
  fixes a b :: nat and d :: rat
  assumes b: "0 < b" and a: "a < 2 ^ 32"
    and err: "\<bar>d - of_nat a / of_nat b\<bar> \<le> of_nat a / of_nat b * 2 powi (- 53)"
    and d: "0 \<le> d"
  shows "\<bar>of_nat (nat \<lfloor>d * 100 + 1 / 2\<rfloor>) / 100 - of_nat a / of_nat b\<bar> \<le> (1 / 200 :: rat)"
proof -
  define A :: rat where "A = of_nat a"
  define B :: rat where "B = of_nat b"
  define N where "N = \<lfloor>d * 100 + 1 / 2\<rfloor>"
  have Bp: "0 < B" using b by (simp add: B_def)
  have A0: "0 \<le> A" by (simp add: A_def)
  have Ahi: "A < 2 ^ 32"
  proof -
    have "(of_nat a :: rat) < of_nat (2 ^ 32)" using a by (simp only: of_nat_less_iff)
    then show ?thesis by (simp add: A_def)
  qed
  have N0: "0 \<le> N" using d by (simp add: N_def)
  have Nlo: "of_int N \<le> d * 100 + 1 / 2" and Nhi: "d * 100 + 1 / 2 < of_int N + 1"
    unfolding N_def by linarith+
  have c: "(2::rat) powi (- 53) = 1 / 9007199254740992" by simp
  have "\<bar>d - A / B\<bar> * B \<le> A / B * (1 / 9007199254740992) * B"
    using err Bp unfolding A_def B_def c by (intro mult_right_mono) simp_all
  moreover have "\<bar>d - A / B\<bar> * B = \<bar>d * B - A\<bar>"
  proof -
    have "(d - A / B) * B = d * B - A" using Bp by (simp add: left_diff_distrib)
    moreover have "\<bar>d - A / B\<bar> * B = \<bar>(d - A / B) * B\<bar>" using Bp by (simp add: abs_mult)
    ultimately show ?thesis by (simp only:)
  qed
  moreover have "A / B * (1 / 9007199254740992) * B = A / 9007199254740992"
    using Bp by simp
  ultimately have e: "\<bar>d * B - A\<bar> \<le> A / 9007199254740992" by simp
  have p1: "of_int N * B \<le> d * B * 100 + B / 2"
    using mult_right_mono[OF Nlo, of B] Bp by (simp add: algebra_simps)
  have p2: "d * B * 100 + B / 2 < of_int N * B + B"
    using mult_strict_right_mono[OF Nhi Bp] by (simp add: algebra_simps)
  define D where "D = 2 * N * int b - 200 * int a"
  have Dr: "(of_int D :: rat) = 2 * (of_int N * B) - 200 * A"
    by (simp add: D_def A_def B_def)
  have "- int b \<le> D \<and> D \<le> int b"
  proof (rule ccontr)
    assume "\<not> (- int b \<le> D \<and> D \<le> int b)"
    then consider "int b + 1 \<le> D" | "D \<le> - int b - 1" by linarith
    then show False
    proof cases
      case 1
      then have "(of_int (int b + 1) :: rat) \<le> of_int D" by (simp only: of_int_le_iff)
      then have "B + 1 \<le> 2 * (of_int N * B) - 200 * A" by (simp add: Dr B_def)
      with p1 e Ahi A0 show False by (simp add: abs_le_iff; linarith)
    next
      case 2
      then have "(of_int D :: rat) \<le> of_int (- int b - 1)" by (simp only: of_int_le_iff)
      then have "2 * (of_int N * B) - 200 * A \<le> - B - 1" by (simp add: Dr B_def)
      with p2 e Ahi A0 show False by (simp add: abs_le_iff; linarith)
    qed
  qed
  then have "(of_int (- int b) :: rat) \<le> of_int D \<and> (of_int D :: rat) \<le> of_int (int b)"
    by (simp only: of_int_le_iff)
  then have g: "- B \<le> 2 * (of_int N * B) - 200 * A \<and> 2 * (of_int N * B) - 200 * A \<le> B"
    by (simp add: Dr B_def)
  have "\<bar>of_int N / 100 - A / B\<bar> * (200 * B) = \<bar>2 * (of_int N * B) - 200 * A\<bar>"
  proof -
    have "(of_int N / 100 - A / B) * (200 * B) = 2 * (of_int N * B) - 200 * A"
      using Bp by (simp add: field_simps)
    moreover have "\<bar>of_int N / 100 - A / B\<bar> * (200 * B) = \<bar>(of_int N / 100 - A / B) * (200 * B)\<bar>"
      using Bp by (simp add: abs_mult)
    ultimately show ?thesis by simp
  qed
  also have "\<dots> \<le> B" using g by (simp add: abs_le_iff) 
  finally have "\<bar>of_int N / 100 - A / B\<bar> * (200 * B) \<le> 1 / 200 * (200 * B)" by simp
  then have "\<bar>of_int N / 100 - A / B\<bar> \<le> 1 / 200"
    using Bp by (simp only: mult_le_cancel_right; simp)
  moreover have "(of_nat (nat N) :: rat) = of_int N" using N0 by simp
  ultimately show ?thesis by (simp add: A_def B_def N_def)
qed

lemma ratio_hundredths:
  fixes a b :: nat
  assumes b: "0 < b" "b < 2 ^ 32" and a: "a < 2 ^ 32"
  shows "\<exists>n. toFixedNum 2 (fdiv (Fin (of_nat a)) (Fin (of_nat b))) = twoDecimals n
             \<and> \<bar>of_nat n / 100 - of_nat a / of_nat b\<bar> \<le> (1 / 200 :: rat)"
proof (cases "a = 0")
  case True
  have "toFixed 2 0 = twoDecimals 0" using toFixed2_string[of 0] by (simp add: floor_eq_iff)
  then show ?thesis using True b by (auto simp: binary64_def intro!: exI[of _ 0])
next
  case False
  define q :: rat where "q = of_nat a / of_nat b"
  have A1: "(1::rat) \<le> of_nat a" using False by (simp add: Suc_le_eq)
  have B1: "(1::rat) \<le> of_nat b" using b by (simp add: Suc_le_eq)
  have Ahi: "(of_nat a :: rat) < 2 ^ 32"
  proof -
    have "(of_nat a :: rat) < of_nat (2 ^ 32)" using a by (simp only: of_nat_less_iff)
    then show ?thesis by simp
  qed
  have Bhi: "(of_nat b :: rat) < 2 ^ 32"
  proof -
    have "(of_nat b :: rat) < of_nat (2 ^ 32)" using b by (simp only: of_nat_less_iff)
    then show ?thesis by simp
  qed
  have qp: "0 < q" using A1 B1 by (simp add: q_def)
  have "1 / 2 ^ 32 \<le> 1 / (of_nat b :: rat)" using B1 Bhi by (simp add: field_simps)
  also have "\<dots> \<le> q" unfolding q_def using A1 B1 by (intro divide_right_mono) simp_all
  finally have "1 / 2 ^ 32 \<le> q" .
  moreover have "(2::rat) powi (- 1022) \<le> 1 / 2 ^ 32"
  proof -
    have "(2::rat) powi (- 1022) \<le> 2 powi (- 32)" by (intro power_int_increasing) simp_all
    then show ?thesis by (simp add: power_int_minus_divide)
  qed
  ultimately have lo: "2 powi (- 1022) \<le> q" by (rule order_trans[rotated])
  have "q \<le> of_nat a" unfolding q_def using A1 B1 by (simp add: field_simps)
  also have "\<dots> < 2 ^ 32" by (rule Ahi)
  also have "(2::rat) ^ 32 \<le> 2 powi 1023"
    using power_int_increasing[of 32 1023 "2::rat"] by simp
  finally have hi: "q < 2 powi 1023" .
  from binary64_error[OF qp lo hi] obtain d where d: "binary64 q = Fin d" "0 \<le> d"
    "\<bar>d - q\<bar> \<le> q * 2 powi (- 53)" by blast
  have f: "fdiv (Fin (of_nat a)) (Fin (of_nat b)) = Fin d"
    using b d(1) by (simp add: q_def)
  have "toFixed 2 d = twoDecimals (nat \<lfloor>d * 100 + 1 / 2\<rfloor>)" using d(2) by (rule toFixed2_string)
  moreover have "\<bar>of_nat (nat \<lfloor>d * 100 + 1 / 2\<rfloor>) / 100 - of_nat a / of_nat b\<bar> \<le> (1 / 200 :: rat)"
    using b(1) a d(3) d(2) unfolding q_def by (rule hundredths_of_double)
  ultimately show ?thesis using f by auto
qed

lemma ratio_3_40: "toFixedNum 2 (fdiv (Fin (of_nat 3)) (Fin (of_nat 40))) = ''0.07''"
proof -
  have f: "\<lfloor>(5404319552844595 / 72057594037927936 :: rat) * 100 + 1 / 2\<rfloor> = 7"
    by (simp add: floor_eq_iff)
  have "toFixed 2 (5404319552844595 / 72057594037927936)
          = twoDecimals (nat \<lfloor>(5404319552844595 / 72057594037927936 :: rat) * 100 + 1 / 2\<rfloor>)"
    by (rule toFixed2_string) simp
  then have "toFixed 2 (5404319552844595 / 72057594037927936) = twoDecimals (nat 7)"
    by (simp only: f)
  moreover have "twoDecimals (nat 7) = ''0.07''"
    by (simp add: twoDecimals_def digitsOf_small digit_def)
  ultimately show ?thesis by (simp add: binary64_3_40)
qed

section \<open>Claims about the win/loss block\<close>

lemma stats_empty:
  "calculateWinLossStats None = emptyWinLossStats \<and> calculateWinLossStats (Some []) = emptyWinLossStats"
  by (simp add: calculateWinLossStats_def)

text \<open>
  C1 (as amended). For an empty or absent \<^verbatim>\<open>closedPositions\<close> the early return of
  \<^verbatim>\<open>calculateWinLossStats\<close> gives every scalar it contains as zero, \<^verbatim>\<open>biggestWin\<close> and
  \<^verbatim>\<open>biggestLoss\<close> as null, and both bucket maps empty: the price-range map is \<^verbatim>\<open>{}\<close> too.
  It has no \<^verbatim>\<open>breakeven\<close>, \<^verbatim>\<open>totalWinAmount\<close>, \<^verbatim>\<open>totalLossAmount\<close> and \<^verbatim>\<open>expectancy\<close> fields.
  The five pre-seeded zero buckets are what \<^verbatim>\<open>calculateWinLossByPriceRange\<close> itself returns
  for an empty array, but the early return comes before that call.
\<close>

theorem C1_empty_input_result:
  "calculateWinLossStats None = calculateWinLossStats (Some [])
   \<and> totalResolved (calculateWinLossStats (Some [])) = 0
   \<and> wins (calculateWinLossStats (Some [])) = 0
   \<and> losses (calculateWinLossStats (Some [])) = 0
   \<and> winRate (calculateWinLossStats (Some [])) = 0
   \<and> totalRealizedPnL (calculateWinLossStats (Some [])) = Fin 0
   \<and> avgWinAmount (calculateWinLossStats (Some [])) = Fin 0
   \<and> avgLossAmount (calculateWinLossStats (Some [])) = Fin 0
   \<and> profitFactor (calculateWinLossStats (Some [])) = Fin 0
   \<and> biggestWin (calculateWinLossStats (Some [])) = None
   \<and> biggestLoss (calculateWinLossStats (Some [])) = None
   \<and> breakeven (calculateWinLossStats (Some [])) = None
   \<and> totalWinAmount (calculateWinLossStats (Some [])) = None
   \<and> totalLossAmount (calculateWinLossStats (Some [])) = None
   \<and> expectancy (calculateWinLossStats (Some [])) = None
   \<and> winLossByCategory (calculateWinLossStats (Some [])) = []
   \<and> winLossByPriceRange (calculateWinLossStats (Some [])) = []
   \<and> calculateWinLossByCategory [] = []
   \<and> map fst (calculateWinLossByPriceRange [])
       = [Longshots, Underdogs, Tossups, Favorites, HeavyFavorites]
   \<and> map snd (calculateWinLossByPriceRange [])
       = replicate 5 \<lparr>b_wins = 0, b_losses = 0, b_totalPnl = Fin 0, b_count = 0, b_winRate = 0\<rparr>"
  by (simp add: stats_empty emptyWinLossStats_def calculateWinLossByCategory_def
      calculateWinLossByPriceRange_def ranges0_def zero_bucket_def setWinRate_def rate_def
      numeral_eq_Suc)

text \<open>
  C1 as stated fails: on the empty array the price-range map of the result has no
  \<open>Longshots\<close> bucket (it has no bucket at all), while the pre-seeded map has five.
\<close>

theorem C1_counterexample:
  "map_of (winLossByPriceRange (calculateWinLossStats (Some []))) Longshots = None
   \<and> length (winLossByPriceRange (calculateWinLossStats (Some []))) = 0
   \<and> length (calculateWinLossByPriceRange []) = 5"
  by (simp add: stats_empty emptyWinLossStats_def calculateWinLossByPriceRange_def ranges0_def)

text \<open>
  C2 (as amended). For every input, \<^verbatim>\<open>winRate\<close> lies in [0,100], and it is 0 exactly
  when there is no winning position (\<^verbatim>\<open>wins\<close> is 0); in particular it is 0 when
  \<^verbatim>\<open>totalResolved\<close> is 0.
\<close>

theorem C2_winRate_range_and_zero:
  "0 \<le> winRate (calculateWinLossStats arg) \<and> winRate (calculateWinLossStats arg) \<le> 100
   \<and> (winRate (calculateWinLossStats arg) = 0 \<longleftrightarrow> wins (calculateWinLossStats arg) = 0)
   \<and> (totalResolved (calculateWinLossStats arg) = 0 \<longrightarrow> winRate (calculateWinLossStats arg) = 0)"
proof (cases "\<exists>cps. arg = Some cps \<and> cps \<noteq> []")
  case True
  then obtain cps where a: "arg = Some cps" "cps \<noteq> []" by blast
  have le: "length (filter (\<lambda>p. pnl p > 0) cps) \<le> length cps" by simp
  show ?thesis using a rate_bounds[OF le]
    by (simp add: stats_nonempty rate_zero_iff)
next
  case False
  then have "calculateWinLossStats arg = emptyWinLossStats"
    by (cases arg) (auto simp: calculateWinLossStats_def)
  then show ?thesis by (simp add: emptyWinLossStats_def)
qed

theorem C2_witness:
  "totalResolved (calculateWinLossStats (Some [])) = 0
   \<and> winRate (calculateWinLossStats (Some [])) = 0
   \<and> wins (calculateWinLossStats (Some [])) = 0"
  using C2_winRate_range_and_zero [of "Some []"]
  by (simp add: stats_empty emptyWinLossStats_def)

text \<open>
  C2 as stated fails: a single losing position gives \<^verbatim>\<open>winRate\<close> 0 although
  \<^verbatim>\<open>totalResolved\<close> is 1.
\<close>

theorem C2_counterexample:
  "winRate (calculateWinLossStats (Some [smallLoss])) = 0
   \<and> totalResolved (calculateWinLossStats (Some [smallLoss])) = 1"
  by (simp add: stats_nonempty rate_def smallLoss_def pnl_def or0_def)

text \<open>
  C3 (as amended). For every non-empty input the result carries \<^verbatim>\<open>totalWinAmount\<close> and
  \<^verbatim>\<open>totalLossAmount\<close>, neither of them negative or \<^verbatim>\<open>NaN\<close>, and
  \<^item> \<^verbatim>\<open>profitFactor\<close> is \<^verbatim>\<open>Infinity\<close> exactly when \<^verbatim>\<open>totalLossAmount\<close> is 0 and
    \<^verbatim>\<open>totalWinAmount\<close> is positive, or \<^verbatim>\<open>totalLossAmount\<close> is positive and finite and the
    quotient overflows: \<^verbatim>\<open>totalWinAmount\<close> is \<^verbatim>\<open>Infinity\<close>, or the exact quotient of the two
    amounts is at least \<open>2\<^sup>1\<^sup>0\<^sup>2\<^sup>4 - 2\<^sup>9\<^sup>7\<^sup>0\<close>;
  \<^item> \<^verbatim>\<open>profitFactor\<close> is 0 exactly when \<^verbatim>\<open>totalWinAmount\<close> is 0, whatever \<^verbatim>\<open>totalLossAmount\<close>
    is, or \<^verbatim>\<open>totalWinAmount\<close> is positive and finite and the quotient underflows:
    \<^verbatim>\<open>totalLossAmount\<close> is \<^verbatim>\<open>Infinity\<close>, or it is positive and the exact quotient is at most
    \<open>2\<^sup>-\<^sup>1\<^sup>0\<^sup>7\<^sup>5\<close>.

  For the empty input \<^verbatim>\<open>profitFactor\<close> is 0 and the result carries neither amount.
\<close>

theorem C3_profitFactor_markers:
  "(cps \<noteq> [] \<longrightarrow>
      (\<exists>W L. totalWinAmount (calculateWinLossStats (Some cps)) = Some W
           \<and> totalLossAmount (calculateWinLossStats (Some cps)) = Some L
           \<and> nonnegNum W \<and> nonnegNum L
           \<and> (profitFactor (calculateWinLossStats (Some cps)) = Infinity \<longleftrightarrow>
                (L = Fin 0 \<and> fpos W) \<or> quotientOverflows W L)
           \<and> (profitFactor (calculateWinLossStats (Some cps)) = Fin 0 \<longleftrightarrow>
                W = Fin 0 \<or> quotientUnderflows W L)))
   \<and> profitFactor (calculateWinLossStats (Some [])) = Fin 0
   \<and> totalWinAmount (calculateWinLossStats (Some [])) = None
   \<and> totalLossAmount (calculateWinLossStats (Some [])) = None"
proof -
  have "cps \<noteq> [] \<Longrightarrow>
      (\<exists>W L. totalWinAmount (calculateWinLossStats (Some cps)) = Some W
           \<and> totalLossAmount (calculateWinLossStats (Some cps)) = Some L
           \<and> nonnegNum W \<and> nonnegNum L
           \<and> (profitFactor (calculateWinLossStats (Some cps)) = Infinity \<longleftrightarrow>
                (L = Fin 0 \<and> fpos W) \<or> quotientOverflows W L)
           \<and> (profitFactor (calculateWinLossStats (Some cps)) = Fin 0 \<longleftrightarrow>
                W = Fin 0 \<or> quotientUnderflows W L))"
    using profitFactor_cases[OF sumPnl_wins_nonneg[of cps] sumPnl_losses_nonneg[of cps]]
      sumPnl_wins_nonneg[of cps] sumPnl_losses_nonneg[of cps]
    by (simp add: stats_nonempty)
  then show ?thesis by (simp add: stats_empty emptyWinLossStats_def)
qed

theorem C3_witness:
  "[btcWin] \<noteq> []
   \<and> profitFactor (calculateWinLossStats (Some [btcWin])) = Infinity
   \<and> totalLossAmount (calculateWinLossStats (Some [btcWin])) = Some (Fin 0)
   \<and> totalWinAmount (calculateWinLossStats (Some [btcWin])) = Some (Fin 50)"
  using C3_profitFactor_markers [of "[btcWin]"]
  by (simp add: stats_nonempty sumPnl_def btcWin_def pnl_def or0_def b64_vals)

text \<open>
  C3 as stated fails: a single losing position gives \<^verbatim>\<open>profitFactor\<close> 0 while
  \<^verbatim>\<open>totalLossAmount\<close> is 1, so the two amounts are not both 0.
\<close>

theorem C3_counterexample:
  "profitFactor (calculateWinLossStats (Some [smallLoss])) = Fin 0
   \<and> totalWinAmount (calculateWinLossStats (Some [smallLoss])) = Some (Fin 0)
   \<and> totalLossAmount (calculateWinLossStats (Some [smallLoss])) = Some (Fin 1)"
  by (simp add: stats_nonempty sumPnl_def smallLoss_def pnl_def or0_def b64_neg_vals binary64_0)

text \<open>
  C4. For every non-empty \<^verbatim>\<open>closedPositions\<close>, the result has a \<^verbatim>\<open>breakeven\<close> count, and
  \<^verbatim>\<open>wins + losses + breakeven\<close> equals \<^verbatim>\<open>totalResolved\<close>, the length of the input; the three
  counts are those of the positions with \<^verbatim>\<open>realizedPnl || 0\<close> positive, negative and zero.
\<close>

theorem C4_counts_partition:
  assumes "cps \<noteq> []"
  shows "\<exists>b. breakeven (calculateWinLossStats (Some cps)) = Some b
          \<and> wins (calculateWinLossStats (Some cps)) + losses (calculateWinLossStats (Some cps)) + b
              = totalResolved (calculateWinLossStats (Some cps))
          \<and> totalResolved (calculateWinLossStats (Some cps)) = length cps
          \<and> wins (calculateWinLossStats (Some cps))
              = length (filter (\<lambda>p. or0 (realizedPnl p) > 0) cps)
          \<and> losses (calculateWinLossStats (Some cps))
              = length (filter (\<lambda>p. or0 (realizedPnl p) < 0) cps)
          \<and> b = length (filter (\<lambda>p. or0 (realizedPnl p) = 0) cps)"
  using assms partition_lengths[of cps] by (simp add: stats_nonempty pnl_def)

theorem C4_witness:
  "[btcWin, flat, nbaLoss] \<noteq> []
   \<and> breakeven (calculateWinLossStats (Some [btcWin, flat, nbaLoss])) = Some 1
   \<and> wins (calculateWinLossStats (Some [btcWin, flat, nbaLoss])) = 1
   \<and> losses (calculateWinLossStats (Some [btcWin, flat, nbaLoss])) = 1
   \<and> totalResolved (calculateWinLossStats (Some [btcWin, flat, nbaLoss])) = 3"
  using C4_counts_partition [of "[btcWin, flat, nbaLoss]"]
  by (simp add: stats_nonempty btcWin_def flat_def nbaLoss_def pnl_def or0_def)

text \<open>
  C5. \<^verbatim>\<open>calculateWinLossByPriceRange\<close> returns exactly the five fixed buckets, under five
  distinct labels, and counts every closed position in exactly one of them: the five
  \<^verbatim>\<open>count\<close> fields are the numbers of positions whose \<^verbatim>\<open>avgPrice || 0\<close> is at most 0.20,
  above 0.20 and at most 0.40, above 0.40 and at most 0.60, above 0.60 and at most 0.80,
  and above 0.80, so their sum is the number of closed positions (\<^verbatim>\<open>totalResolved\<close>). The
  boundary prices 0.20, 0.40, 0.60 and 0.80 go to the lower band, so 0.20 is a Longshot:
  four positions entered at the four boundaries fill the first four buckets and leave
  Heavy Favorites empty. Each threshold is the binary64 number nearest to its decimal.
  In the result of \<^verbatim>\<open>calculateWinLossStats\<close> the counts of \<^verbatim>\<open>winLossByPriceRange\<close> sum to
  \<^verbatim>\<open>totalResolved\<close>.
\<close>

theorem C5_price_buckets_partition:
  "sum_list (map (\<lambda>(r, b). b_count b) (calculateWinLossByPriceRange cps)) = length cps
   \<and> map fst (calculateWinLossByPriceRange cps)
       = [Longshots, Underdogs, Tossups, Favorites, HeavyFavorites]
   \<and> distinct [Longshots, Underdogs, Tossups, Favorites, HeavyFavorites]
   \<and> map (\<lambda>(r, b). b_count b) (calculateWinLossByPriceRange cps)
       = [length (filter (\<lambda>p. or0 (avgPrice p) \<le> dec (20 / 100)) cps),
          length (filter (\<lambda>p. dec (20 / 100) < or0 (avgPrice p)
                              \<and> or0 (avgPrice p) \<le> dec (40 / 100)) cps),
          length (filter (\<lambda>p. dec (40 / 100) < or0 (avgPrice p)
                              \<and> or0 (avgPrice p) \<le> dec (60 / 100)) cps),
          length (filter (\<lambda>p. dec (60 / 100) < or0 (avgPrice p)
                              \<and> or0 (avgPrice p) \<le> dec (80 / 100)) cps),
          length (filter (\<lambda>p. dec (80 / 100) < or0 (avgPrice p)) cps)]
   \<and> rangeOf (dec (20 / 100)) = Longshots \<and> rangeOf (dec (40 / 100)) = Underdogs
   \<and> rangeOf (dec (60 / 100)) = Tossups \<and> rangeOf (dec (80 / 100)) = Favorites
   \<and> map (\<lambda>(r, b). b_count b)
        (calculateWinLossByPriceRange [atPrice (dec (20 / 100)), atPrice (dec (40 / 100)),
           atPrice (dec (60 / 100)), atPrice (dec (80 / 100))]) = [1, 1, 1, 1, 0]
   \<and> map (\<lambda>(r, b). b_count b) (calculateWinLossByPriceRange [smallLoss]) = [1, 0, 0, 0, 0]
   \<and> \<bar>dec (20 / 100) - 20 / 100\<bar> \<le> (20 / 100) / 2 ^ 53
   \<and> \<bar>dec (40 / 100) - 40 / 100\<bar> \<le> (40 / 100) / 2 ^ 53
   \<and> \<bar>dec (60 / 100) - 60 / 100\<bar> \<le> (60 / 100) / 2 ^ 53
   \<and> \<bar>dec (80 / 100) - 80 / 100\<bar> \<le> (80 / 100) / 2 ^ 53
   \<and> sum_list (map (\<lambda>(r, b). b_count b) (winLossByPriceRange (calculateWinLossStats arg)))
       = totalResolved (calculateWinLossStats arg)"
proof -
  have tc: "totalCount (calculateWinLossByPriceRange xs) = length xs" for xs
    unfolding calculateWinLossByPriceRange_def totalCount_setWinRate
    using foldl_rangeStep_count[OF ranges0_keys, of xs]
    by (simp add: totalCount_def ranges0_def zero_bucket_def)
  have st: "totalCount (winLossByPriceRange (calculateWinLossStats arg))
              = totalResolved (calculateWinLossStats arg)"
  proof (cases "\<exists>xs. arg = Some xs \<and> xs \<noteq> []")
    case True
    then obtain xs where "arg = Some xs" "xs \<noteq> []" by blast
    then show ?thesis using tc[of xs] by (simp add: stats_nonempty)
  next
    case False
    then have "calculateWinLossStats arg = emptyWinLossStats"
      by (cases arg) (auto simp: calculateWinLossStats_def)
    then show ?thesis by (simp add: emptyWinLossStats_def totalCount_def)
  qed
  have c1: "sum_list (map (\<lambda>(r, b). b_count b) (calculateWinLossByPriceRange cps)) = length cps"
    using tc[of cps] by (simp add: totalCount_def)
  have c2: "map fst (calculateWinLossByPriceRange cps)
       = [Longshots, Underdogs, Tossups, Favorites, HeavyFavorites]"
    using price_range_keys[of cps] by (simp add: rangeLabels_def)
  have c3: "distinct [Longshots, Underdogs, Tossups, Favorites, HeavyFavorites]"
    using distinct_rangeLabels by (simp add: rangeLabels_def)
  note t = thresholds_increase
  have c5: "rangeOf (dec (20 / 100)) = Longshots" "rangeOf (dec (40 / 100)) = Underdogs"
    "rangeOf (dec (60 / 100)) = Tossups" "rangeOf (dec (80 / 100)) = Favorites"
    unfolding rangeOf_iff using t by simp_all
  have c6: "map (\<lambda>(r, b). b_count b)
        (calculateWinLossByPriceRange [atPrice (dec (20 / 100)), atPrice (dec (40 / 100)),
           atPrice (dec (60 / 100)), atPrice (dec (80 / 100))]) = [1, 1, 1, 1, 0]"
    unfolding price_range_counts using t by (simp add: atPrice_def or0_def)
  have c7: "map (\<lambda>(r, b). b_count b) (calculateWinLossByPriceRange [smallLoss]) = [1, 0, 0, 0, 0]"
    unfolding price_range_counts using t by (simp add: smallLoss_def or0_def)
  have c8: "\<bar>dec (20 / 100) - 20 / 100\<bar> \<le> (20 / 100) / 2 ^ 53"
    "\<bar>dec (40 / 100) - 40 / 100\<bar> \<le> (40 / 100) / 2 ^ 53"
    "\<bar>dec (60 / 100) - 60 / 100\<bar> \<le> (60 / 100) / 2 ^ 53"
    "\<bar>dec (80 / 100) - 80 / 100\<bar> \<le> (80 / 100) / 2 ^ 53"
    by (rule dec_close; simp)+
  have c9: "sum_list (map (\<lambda>(r, b). b_count b) (winLossByPriceRange (calculateWinLossStats arg)))
       = totalResolved (calculateWinLossStats arg)"
    using st by (simp add: totalCount_def)
  from c1 c2 c3 price_range_counts[of cps] c5 c6 c7 c8 c9 show ?thesis
    by (intro conjI)
qed

text \<open>
  C6. The scenario of the specification: a win of 50 entered at 0.15 and a loss of 20
  entered at 0.70 give \<^verbatim>\<open>totalResolved\<close> 2, one win, one loss, \<^verbatim>\<open>winRate\<close> 50,
  \<^verbatim>\<open>totalRealizedPnL\<close> 30 and \<^verbatim>\<open>profitFactor\<close> 2.5; the Longshots bucket has count 1 and
  \<^verbatim>\<open>totalPnl\<close> 50, the Favorites bucket count 1 and \<^verbatim>\<open>totalPnl\<close> -20, the other three count 0.
\<close>

theorem C6_scenario:
  "totalResolved (calculateWinLossStats (Some [btcWin, nbaLoss])) = 2
   \<and> wins (calculateWinLossStats (Some [btcWin, nbaLoss])) = 1
   \<and> losses (calculateWinLossStats (Some [btcWin, nbaLoss])) = 1
   \<and> winRate (calculateWinLossStats (Some [btcWin, nbaLoss])) = 50
   \<and> totalRealizedPnL (calculateWinLossStats (Some [btcWin, nbaLoss])) = Fin 30
   \<and> profitFactor (calculateWinLossStats (Some [btcWin, nbaLoss])) = Fin (25 / 10)
   \<and> map (\<lambda>(r, b). (r, b_count b, b_totalPnl b))
        (winLossByPriceRange (calculateWinLossStats (Some [btcWin, nbaLoss])))
      = [(Longshots, 1, Fin 50), (Underdogs, 0, Fin 0), (Tossups, 0, Fin 0),
         (Favorites, 1, Fin (- 20)), (HeavyFavorites, 0, Fin 0)]"
proof -
  have scal: "totalResolved (calculateWinLossStats (Some [btcWin, nbaLoss])) = 2
   \<and> wins (calculateWinLossStats (Some [btcWin, nbaLoss])) = 1
   \<and> losses (calculateWinLossStats (Some [btcWin, nbaLoss])) = 1
   \<and> winRate (calculateWinLossStats (Some [btcWin, nbaLoss])) = 50
   \<and> totalRealizedPnL (calculateWinLossStats (Some [btcWin, nbaLoss])) = Fin 30
   \<and> profitFactor (calculateWinLossStats (Some [btcWin, nbaLoss])) = Fin (25 / 10)"
    by (simp add: stats_nonempty rate_def sumPnl_def btcWin_def nbaLoss_def pnl_def or0_def
        b64_vals b64_neg_vals)
  have d: "Longshots \<noteq> Favorites"
    by (simp add: Longshots_def Favorites_def)
  have v: "pnl btcWin = 50" "pnl nbaLoss = - 20"
    by (simp_all add: btcWin_def nbaLoss_def pnl_def or0_def)
  have a: "\<bar>dec (15 / 100) - 15 / 100\<bar> \<le> 1 / 100" "\<bar>dec (20 / 100) - 20 / 100\<bar> \<le> 1 / 100"
    "\<bar>dec (60 / 100) - 60 / 100\<bar> \<le> 1 / 100" "\<bar>dec (70 / 100) - 70 / 100\<bar> \<le> 1 / 100"
    "\<bar>dec (80 / 100) - 80 / 100\<bar> \<le> 1 / 100"
    by (rule order_trans[OF dec_close]; simp)+
  have "dec (15 / 100) \<le> dec (20 / 100)" "dec (60 / 100) < dec (70 / 100)"
    "dec (70 / 100) \<le> dec (80 / 100)"
    using a by linarith+
  then have b: "rangeOf (or0 (avgPrice btcWin)) = Longshots"
    "rangeOf (or0 (avgPrice nbaLoss)) = Favorites"
    unfolding rangeOf_iff by (simp_all add: btcWin_def nbaLoss_def or0_def)
  have pr: "winLossByPriceRange (calculateWinLossStats (Some [btcWin, nbaLoss]))
              = calculateWinLossByPriceRange [btcWin, nbaLoss]"
    by (simp add: stats_nonempty)
  have "map (\<lambda>(r, b). (r, b_count b, b_totalPnl b)) (calculateWinLossByPriceRange [btcWin, nbaLoss])
      = [(Longshots, 1, Fin 50), (Underdogs, 0, Fin 0), (Tossups, 0, Fin 0),
         (Favorites, 1, Fin (- 20)), (HeavyFavorites, 0, Fin 0)]"
    using d
    by (simp add: calculateWinLossByPriceRange_def rangeStep_def b v ranges0_def
        tally_def Let_def zero_bucket_def setWinRate_def b64_vals b64_neg_vals
        Underdogs_def Tossups_def Favorites_def cent_def)
  then have "map (\<lambda>(r, b). (r, b_count b, b_totalPnl b))
        (winLossByPriceRange (calculateWinLossStats (Some [btcWin, nbaLoss])))
      = [(Longshots, 1, Fin 50), (Underdogs, 0, Fin 0), (Tossups, 0, Fin 0),
         (Favorites, 1, Fin (- 20)), (HeavyFavorites, 0, Fin 0)]"
    unfolding pr .
  with scal show ?thesis by (elim conjE) (intro conjI; assumption)
qed

text \<open>
  C7. Every bucket returned by \<^verbatim>\<open>calculateWinLossByCategory\<close> has \<^verbatim>\<open>wins + losses \<le> count\<close>,
  and its stored \<^verbatim>\<open>winRate\<close> is \<^verbatim>\<open>wins / count * 100\<close> when \<^verbatim>\<open>count > 0\<close> and 0 otherwise,
  that is, the value recomputed from the bucket's own \<^verbatim>\<open>wins\<close> and \<^verbatim>\<open>count\<close>. A break-even
  position adds one to \<^verbatim>\<open>count\<close> and leaves \<^verbatim>\<open>wins\<close> and \<^verbatim>\<open>losses\<close> as they were.
\<close>

theorem C7_category_bucket_invariant:
  "(\<forall>(cat, b) \<in> set (calculateWinLossByCategory cps).
      b_wins b + b_losses b \<le> b_count b
      \<and> b_winRate b = (if b_count b > 0 then (of_nat (b_wins b) / of_nat (b_count b)) * 100 else 0))
   \<and> (pnl p = 0 \<longrightarrow> b_count (tally p d) = b_count d + 1 \<and> b_wins (tally p d) = b_wins d
         \<and> b_losses (tally p d) = b_losses d)"
proof -
  have "\<forall>(k, b) \<in> set (foldl categoryStep [] cps). bucket_ok b"
    by (rule foldl_categoryStep_ok) simp
  then have "\<forall>(cat, b) \<in> set (calculateWinLossByCategory cps).
      b_wins b + b_losses b \<le> b_count b
      \<and> b_winRate b = (if b_count b > 0 then (of_nat (b_wins b) / of_nat (b_count b)) * 100 else 0)"
    by (auto simp: calculateWinLossByCategory_def setWinRate_def rate_def bucket_ok_def)
  moreover have "pnl p = 0 \<longrightarrow> b_count (tally p d) = b_count d + 1 \<and> b_wins (tally p d) = b_wins d
         \<and> b_losses (tally p d) = b_losses d"
    by (simp add: tally_def Let_def)
  ultimately show ?thesis by blast
qed

theorem C7_witness:
  "(''Other'', \<lparr>b_wins = 0, b_losses = 1, b_totalPnl = Fin (- 1), b_count = 2, b_winRate = 0\<rparr>)
      \<in> set (calculateWinLossByCategory [flat, smallLoss])
   \<and> (0::nat) + 1 \<le> 2
   \<and> pnl flat = 0
   \<and> b_count (tally flat zero_bucket) = 1 \<and> b_wins (tally flat zero_bucket) = 0
   \<and> b_losses (tally flat zero_bucket) = 0"
proof -
  have c: "classify keywordTable [] = ''Other''"
    by (simp add: keywordTable_def)
  have m: "calculateWinLossByCategory [flat, smallLoss]
     = [(''Other'', \<lparr>b_wins = 0, b_losses = 1, b_totalPnl = Fin (- 1), b_count = 2, b_winRate = 0\<rparr>)]"
    by (simp add: calculateWinLossByCategory_def categoryStep_def Let_def c
        orEmpty_def flat_def smallLoss_def tally_def pnl_def or0_def zero_bucket_def
        setWinRate_def rate_def binary64_0 b64_neg_vals)
  have z: "pnl flat = 0"
    by (simp add: flat_def pnl_def or0_def)
  show ?thesis
    using C7_category_bucket_invariant [of "[flat, smallLoss]" flat zero_bucket] m z
    by (simp add: zero_bucket_def)
qed

text \<open>
  C9. \<^verbatim>\<open>biggestWin\<close> is the first position, in input order, among the wins whose
  \<^verbatim>\<open>realizedPnl\<close> is maximal among the wins; \<^verbatim>\<open>biggestLoss\<close> is the first among the losses
  whose \<^verbatim>\<open>realizedPnl\<close> is minimal among the losses; each is null exactly when its
  partition is empty.
\<close>

theorem C9_biggest_first_extremum:
  "biggestWin (calculateWinLossStats (Some cps))
     = find (\<lambda>p. \<forall>q \<in> set (filter (\<lambda>p. pnl p > 0) cps). pnl q \<le> pnl p)
         (filter (\<lambda>p. pnl p > 0) cps)
   \<and> biggestLoss (calculateWinLossStats (Some cps))
     = find (\<lambda>p. \<forall>q \<in> set (filter (\<lambda>p. pnl p < 0) cps). pnl p \<le> pnl q)
         (filter (\<lambda>p. pnl p < 0) cps)
   \<and> (biggestWin (calculateWinLossStats (Some cps)) = None \<longleftrightarrow> filter (\<lambda>p. pnl p > 0) cps = [])
   \<and> (biggestLoss (calculateWinLossStats (Some cps)) = None \<longleftrightarrow> filter (\<lambda>p. pnl p < 0) cps = [])"
proof -
  have w: "reduceBest (\<lambda>a b. a > b) xs = find (\<lambda>p. \<forall>q \<in> set xs. pnl q \<le> pnl p) xs" for xs
  proof -
    have "\<forall>a b::rat. a > b \<longrightarrow> \<not> b > a" by simp
    moreover have "\<forall>a b c::rat. a > b \<longrightarrow> \<not> c > b \<longrightarrow> a > c" by simp
    ultimately have "reduceBest (\<lambda>a b. a > b) xs = find (\<lambda>p. \<forall>q \<in> set xs. \<not> pnl q > pnl p) xs"
      by (rule reduceBest_find)
    then show ?thesis by (simp add: not_less)
  qed
  have l: "reduceBest (\<lambda>a b. a < b) xs = find (\<lambda>p. \<forall>q \<in> set xs. pnl p \<le> pnl q) xs" for xs
  proof -
    have "\<forall>a b::rat. a < b \<longrightarrow> \<not> b < a" by simp
    moreover have "\<forall>a b c::rat. a < b \<longrightarrow> \<not> c < b \<longrightarrow> a < c" by simp
    ultimately have "reduceBest (\<lambda>a b. a < b) xs = find (\<lambda>p. \<forall>q \<in> set xs. \<not> pnl q < pnl p) xs"
      by (rule reduceBest_find)
    then show ?thesis by (simp add: not_less)
  qed
  have n: "reduceBest b xs = None \<longleftrightarrow> xs = []" for b xs
    by (simp add: reduceBest_def split: list.split)
  have bw: "biggestWin (calculateWinLossStats (Some cps))
              = reduceBest (\<lambda>a b. a > b) (filter (\<lambda>p. pnl p > 0) cps)"
    by (simp add: calculateWinLossStats_def Let_def emptyWinLossStats_def reduceBest_def)
  have bl: "biggestLoss (calculateWinLossStats (Some cps))
              = reduceBest (\<lambda>a b. a < b) (filter (\<lambda>p. pnl p < 0) cps)"
    by (simp add: calculateWinLossStats_def Let_def emptyWinLossStats_def reduceBest_def)
  have "biggestWin (calculateWinLossStats (Some cps))
     = find (\<lambda>p. \<forall>q \<in> set (filter (\<lambda>p. pnl p > 0) cps). pnl q \<le> pnl p)
         (filter (\<lambda>p. pnl p > 0) cps)"
    unfolding bw by (rule w)
  moreover have "biggestLoss (calculateWinLossStats (Some cps))
     = find (\<lambda>p. \<forall>q \<in> set (filter (\<lambda>p. pnl p < 0) cps). pnl p \<le> pnl q)
         (filter (\<lambda>p. pnl p < 0) cps)"
    unfolding bl by (rule l)
  moreover have "biggestWin (calculateWinLossStats (Some cps)) = None
                   \<longleftrightarrow> filter (\<lambda>p. pnl p > 0) cps = []"
    unfolding bw by (rule n)
  moreover have "biggestLoss (calculateWinLossStats (Some cps)) = None
                   \<longleftrightarrow> filter (\<lambda>p. pnl p < 0) cps = []"
    unfolding bl by (rule n)
  ultimately show ?thesis by (intro conjI)
qed

theorem C9_witness:
  "biggestWin (calculateWinLossStats (Some [smallLoss, btcWin, nbaLoss, lateWin, flat])) = Some btcWin
   \<and> biggestLoss (calculateWinLossStats (Some [smallLoss, btcWin, nbaLoss, lateWin, flat]))
       = Some nbaLoss
   \<and> btcWin \<noteq> lateWin \<and> pnl btcWin = pnl lateWin"
  using C9_biggest_first_extremum [of "[smallLoss, btcWin, nbaLoss, lateWin, flat]"]
  by (simp add: smallLoss_def btcWin_def nbaLoss_def lateWin_def flat_def pnl_def or0_def)

section \<open>Claims about calculateStats\<close>

text \<open>
  C8. In every result of \<^verbatim>\<open>calculateStats\<close>, \<^verbatim>\<open>buys\<close> and \<^verbatim>\<open>sells\<close> are the numbers of
  filtered trades whose \<^verbatim>\<open>side\<close> is \<^verbatim>\<open>'BUY'\<close> and \<^verbatim>\<open>'SELL'\<close>. When \<^verbatim>\<open>sells > 0\<close>,
  \<^verbatim>\<open>buySellRatio\<close> is \<^verbatim>\<open>(buys / sells).toFixed(2)\<close>, the quotient being the binary64 number
  nearest to the exact one; for an \<^verbatim>\<open>activity\<close> array of fewer than \<open>2\<^sup>3\<^sup>2\<close> elements, as
  every JavaScript array is, it is the digits of a number of hundredths \<open>n\<close> with exactly
  two decimals, \<open>n / 100\<close> being within half a hundredth of the exact quotient.
  When \<^verbatim>\<open>sells = 0\<close> it is the infinity sign if \<^verbatim>\<open>buys > 0\<close> and \<^verbatim>\<open>'-'\<close> if \<^verbatim>\<open>buys = 0\<close>.
\<close>

theorem C8_buySellRatio:
  assumes "calculateStats data = Inr s"
  shows "buys s = length (filter (\<lambda>t. side t = ''BUY'') (tradesOf data))
   \<and> sells s = length (filter (\<lambda>t. side t = ''SELL'') (tradesOf data))
   \<and> (sells s > 0 \<longrightarrow>
         buySellRatio s = toFixedNum 2 (fdiv (Fin (of_nat (buys s))) (Fin (of_nat (sells s))))
         \<and> (length (in_activity data) < 2 ^ 32 \<longrightarrow>
              (\<exists>n. buySellRatio s = twoDecimals n
                 \<and> \<bar>of_nat n / 100 - of_nat (buys s) / of_nat (sells s)\<bar> \<le> (1 / 200 :: rat))))
   \<and> (sells s = 0 \<and> buys s > 0 \<longrightarrow> buySellRatio s = infinitySign)
   \<and> (sells s = 0 \<and> buys s = 0 \<longrightarrow> buySellRatio s = ''-'')"
proof -
  note r = calculateStats_Inr[OF assms]
  have le: "buys s \<le> length (in_activity data)" "sells s \<le> length (in_activity data)"
  proof -
    have "length (tradesOf data) \<le> length (in_activity data)"
      by (simp add: tradesOf_def)
    moreover have "buys s \<le> length (tradesOf data)" "sells s \<le> length (tradesOf data)"
      using r by simp_all
    ultimately show "buys s \<le> length (in_activity data)" "sells s \<le> length (in_activity data)"
      by linarith+
  qed
  have "\<exists>n. toFixedNum 2 (fdiv (Fin (of_nat (buys s))) (Fin (of_nat (sells s)))) = twoDecimals n
             \<and> \<bar>of_nat n / 100 - of_nat (buys s) / of_nat (sells s)\<bar> \<le> (1 / 200 :: rat)"
    if "0 < sells s" "length (in_activity data) < 2 ^ 32"
  proof (rule ratio_hundredths)
    show "0 < sells s" by (rule that(1))
    show "sells s < 2 ^ 32" using le(2) that(2) by (rule le_less_trans)
    show "buys s < 2 ^ 32" using le(1) that(2) by (rule le_less_trans)
  qed
  then show ?thesis using r by simp
qed

theorem C8_witness:
  "(\<exists>s. calculateStats twoTrades = Inr s \<and> buys s = 1 \<and> sells s = 1 \<and> buySellRatio s = ''1.00'')
   \<and> (\<exists>s. calculateStats manyTrades = Inr s \<and> buys s = 3 \<and> sells s = 40
           \<and> buySellRatio s = ''0.07'')
   \<and> length (in_activity twoTrades) < 2 ^ 32 \<and> length (in_activity manyTrades) < 2 ^ 32
   \<and> (\<exists>s. calculateStats onlyBuy = Inr s \<and> buys s = 1 \<and> sells s = 0
           \<and> buySellRatio s = infinitySign)
   \<and> (\<exists>s. calculateStats noActivity = Inr s \<and> buys s = 0 \<and> sells s = 0 \<and> buySellRatio s = ''-'')"
proof -
  have v: "validTime epochBuy" "validTime fridaySell"
    by (simp_all add: validTime_def epochBuy_def fridaySell_def)
  have t2: "tradesOf twoTrades = [epochBuy, fridaySell]"
    and t1: "tradesOf onlyBuy = [epochBuy]"
    and t0: "tradesOf noActivity = []"
    by (simp_all add: tradesOf_def twoTrades_def onlyBuy_def noActivity_def epochBuy_def
        fridaySell_def redeem_def)
  have sd: "side epochBuy = ''BUY''" "side fridaySell = ''SELL''"
    "activityType epochBuy = ''TRADE''" "activityType fridaySell = ''TRADE''"
    by (simp_all add: epochBuy_def fridaySell_def)
  have tm: "tradesOf manyTrades = replicate 3 epochBuy @ replicate 40 fridaySell"
    by (simp add: tradesOf_def manyTrades_def sd)
  have f: "toFixedNum 2 (fdiv (Fin (of_nat 1)) (Fin (of_nat 1))) = ''1.00''"
  proof -
    have "toFixed 2 1 = twoDecimals (nat \<lfloor>(1::rat) * 100 + 1 / 2\<rfloor>)"
      by (rule toFixed2_string) simp
    moreover have "\<lfloor>(1::rat) * 100 + 1 / 2\<rfloor> = 100" by (simp add: floor_eq_iff)
    moreover have "twoDecimals (nat 100) = ''1.00''"
      by (simp add: twoDecimals_def digitsOf_small digit_def)
    ultimately show ?thesis by (simp add: b64_vals)
  qed
  have l: "length (in_activity twoTrades) < 2 ^ 32" "length (in_activity manyTrades) < 2 ^ 32"
    by (simp_all add: twoTrades_def manyTrades_def)
  obtain s2 where s2: "calculateStats twoTrades = Inr s2"
    using calculateStats_returns[of twoTrades] v t2 by auto
  obtain sm where sm: "calculateStats manyTrades = Inr sm"
    using calculateStats_returns[of manyTrades] v tm by auto
  obtain s1 where s1: "calculateStats onlyBuy = Inr s1"
    using calculateStats_returns[of onlyBuy] v t1 by auto
  obtain s0 where s0: "calculateStats noActivity = Inr s0"
    using calculateStats_returns[of noActivity] t0 by auto
  have "buys s2 = 1 \<and> sells s2 = 1 \<and> buySellRatio s2 = ''1.00''"
    using C8_buySellRatio [OF s2] f by (simp add: t2 sd)
  moreover have "buys sm = 3 \<and> sells sm = 40 \<and> buySellRatio sm = ''0.07''"
    using C8_buySellRatio [OF sm] ratio_3_40 by (simp add: tm sd)
  moreover have "buys s1 = 1 \<and> sells s1 = 0 \<and> buySellRatio s1 = infinitySign"
    using C8_buySellRatio [OF s1] by (simp add: t1 sd)
  moreover have "buys s0 = 0 \<and> sells s0 = 0 \<and> buySellRatio s0 = ''-''"
    using C8_buySellRatio [OF s0] by (simp add: t0)
  ultimately show ?thesis using s2 sm s1 s0 l by blast
qed

text \<open>
  C10 (as amended). For every list of trade records whose timestamps are valid \<^verbatim>\<open>Date\<close>
  times (at most \<open>8.64 \<times> 10\<^sup>1\<^sup>2\<close> seconds from the epoch), \<^verbatim>\<open>getHourDistribution\<close> returns 24
  entries whose sum is the number of trades, and \<^verbatim>\<open>getDayDistribution\<close> returns the seven
  weekday counters, whose sum is the number of trades. \<^verbatim>\<open>calculateStats\<close> returns exactly
  when every filtered trade has such a timestamp (it throws a \<^verbatim>\<open>RangeError\<close> otherwise), so
  in every result it returns both sums equal \<^verbatim>\<open>totalTrades\<close>.
\<close>

theorem C10_distributions_conserve_count:
  "((\<forall>t \<in> set trades. validTime t) \<longrightarrow>
       length (getHourDistribution trades) = 24
       \<and> sum_list (getHourDistribution trades) = length trades
       \<and> map fst (getDayDistribution trades) = dayNames
       \<and> weekdayTotal (getDayDistribution trades) = length trades)
   \<and> (calculateStats data = Inr s \<longrightarrow>
       length (hourDistribution s) = 24
       \<and> sum_list (hourDistribution s) = totalTrades s
       \<and> map fst (dayDistribution s) = dayNames
       \<and> weekdayTotal (dayDistribution s) = totalTrades s)
   \<and> ((\<exists>r. calculateStats data = Inr r) \<longleftrightarrow> (\<forall>t \<in> set (tradesOf data). validTime t))"
proof -
  have a: "(\<forall>t \<in> set ts. validTime t) \<longrightarrow>
       length (getHourDistribution ts) = 24
       \<and> sum_list (getHourDistribution ts) = length ts
       \<and> map fst (getDayDistribution ts) = dayNames
       \<and> weekdayTotal (getDayDistribution ts) = length ts" for ts
    using hours_conserved[of ts] days_conserved[of ts] by blast
  have b: "calculateStats data = Inr s \<longrightarrow>
       length (hourDistribution s) = 24
       \<and> sum_list (hourDistribution s) = totalTrades s
       \<and> map fst (dayDistribution s) = dayNames
       \<and> weekdayTotal (dayDistribution s) = totalTrades s"
  proof
    assume "calculateStats data = Inr s"
    note r = calculateStats_Inr[OF this]
    then have "\<forall>t \<in> set (tradesOf data). validTime t" by blast
    with a[of "tradesOf data"] r show "length (hourDistribution s) = 24
       \<and> sum_list (hourDistribution s) = totalTrades s
       \<and> map fst (dayDistribution s) = dayNames
       \<and> weekdayTotal (dayDistribution s) = totalTrades s" by simp
  qed
  from a[of trades] b calculateStats_returns[of data] show ?thesis by blast
qed

theorem C10_witness:
  "validTime epochBuy \<and> validTime fridaySell
   \<and> sum_list (getHourDistribution [epochBuy, fridaySell]) = 2
   \<and> weekdayTotal (getDayDistribution [epochBuy, fridaySell]) = 2
   \<and> (\<exists>s. calculateStats twoTrades = Inr s \<and> totalTrades s = 2
          \<and> sum_list (hourDistribution s) = 2 \<and> weekdayTotal (dayDistribution s) = 2)"
proof -
  have v: "\<forall>t \<in> set [epochBuy, fridaySell]. validTime t"
    by (simp add: validTime_def epochBuy_def fridaySell_def)
  have t2: "tradesOf twoTrades = [epochBuy, fridaySell]"
    by (simp add: tradesOf_def twoTrades_def epochBuy_def fridaySell_def redeem_def)
  from C10_distributions_conserve_count [of "[epochBuy, fridaySell]" twoTrades] v t2
  obtain s where s: "calculateStats twoTrades = Inr s" by auto
  have n: "totalTrades s = 2" using calculateStats_Inr[OF s] t2 by simp
  from C10_distributions_conserve_count [of "[epochBuy, fridaySell]" twoTrades s] v s n
  show ?thesis by auto
qed

text \<open>
  C10 as stated fails: for one trade whose timestamp is \<open>10\<^sup>1\<^sup>3\<close> seconds the date is
  invalid, no entry of either distribution is incremented, and both sums are 0, not 1.
\<close>

theorem C10_counterexample:
  "sum_list (getHourDistribution [farTrade]) = 0
   \<and> weekdayTotal (getDayDistribution [farTrade]) = 0
   \<and> length [farTrade] = 1"
  by (simp add: getHourDistribution_def hourStep_def getDayDistribution_def dayStep_def
      newDate_def getUTCHours_def getUTCDay_def farTrade_def weekdayTotal_def days0_def
      dayNames_def)

end
